theory Spec2Isabelle
  imports
    Main
    "HOL-Library.Char_ord"
    "HOL-Library.List_Lexorder"
    "HOL-Library.Sublist"
    "HOL-Library.Multiset"
begin

section \<open>The packaging utilities of pyredex (\<^verbatim>\<open>pyredex/utils.py\<close>)\<close>

text \<open>
  A shallow embedding of the functions and context managers of \<^verbatim>\<open>pyredex/utils.py\<close>.
  Python strings are \<^typ>\<open>string\<close>; with \<^verbatim>\<open>Char_ord\<close> and \<^verbatim>\<open>List_Lexorder\<close> the order
  on them is the lexicographic order on character codes, which is the order Python's
  \<^verbatim>\<open>sorted\<close> and \<^verbatim>\<open>list.sort\<close> use on \<^verbatim>\<open>str\<close>. File names are taken to be ASCII.
  A raised exception is the \<open>Inl\<close> of a sum, carrying the exception class and message.
\<close>

subsection \<open>Exceptions, paths and directory trees\<close>

datatype py_exception =
    Exception string
  | FileNotFoundError string
  | FileExistsError string
  | NotADirectoryError string
  | AttributeError string
  | CalledProcessError string

text \<open>\<^verbatim>\<open>posixpath.join(a, b)\<close>: an absolute \<open>b\<close> replaces \<open>a\<close>; otherwise one separator
  is put between them unless \<open>a\<close> is empty or already ends with one.\<close>

definition join :: "string \<Rightarrow> string \<Rightarrow> string" where
  "join a b =
     (if prefix ''/'' b then b
      else if a = [] \<or> suffix ''/'' a then a @ b
      else a @ ''/'' @ b)"

text \<open>\<^verbatim>\<open>posixpath.basename(p)\<close>: everything after the last separator.\<close>

definition basename :: "string \<Rightarrow> string" where
  "basename p = rev (takeWhile (\<lambda>c. c \<noteq> CHR ''/'') (rev p))"

text \<open>\<^verbatim>\<open>posixpath.split(p)\<close>, first component: everything up to the last separator, with
  trailing separators stripped unless it consists of separators only.\<close>

definition split_head :: "string \<Rightarrow> string" where
  "split_head p =
     (let head = rev (dropWhile (\<lambda>c. c \<noteq> CHR ''/'') (rev p))
      in if head \<noteq> [] \<and> \<not> (\<forall>c \<in> set head. c = CHR ''/'')
         then rev (dropWhile (\<lambda>c. c = CHR ''/'') (rev head))
         else head)"

text \<open>A directory tree as the file system holds it. A file carries its size in bytes
  (what \<^verbatim>\<open>os.path.getsize\<close> reads); a directory carries its entries in the order in which
  \<^verbatim>\<open>os.scandir\<close> / \<^verbatim>\<open>os.listdir\<close> happens to return them, which the operating system
  does not fix. Symbolic links and special files are not modelled.\<close>

datatype node = File nat | Dir "(string \<times> node) list"

text \<open>\<^verbatim>\<open>os.path.isfile\<close> and \<^verbatim>\<open>os.path.exists\<close> of the entry \<open>name\<close> of a directory with
  the given entries.\<close>

definition isfile :: "(string \<times> node) list \<Rightarrow> string \<Rightarrow> bool" where
  "isfile entries name = (case map_of entries name of Some (File _) \<Rightarrow> True | _ \<Rightarrow> False)"

definition exists_entry :: "(string \<times> node) list \<Rightarrow> string \<Rightarrow> bool" where
  "exists_entry entries name = (map_of entries name \<noteq> None)"

subsection \<open>\<^verbatim>\<open>extract_dex_number\<close>\<close>

text \<open>
  \<^verbatim>\<open>re.search(r"(classes|.*-)(\d+)", basename(dexfilename))\<close>, written out for this one
  pattern with the backtracking order of Python's \<^verbatim>\<open>re\<close>: start positions are tried from
  left to right; at a start position the alternative \<^verbatim>\<open>classes\<close> is tried first, then
  \<^verbatim>\<open>.*-\<close>, whose greedy star takes the longest stretch without a newline and gives back
  one character at a time until a hyphen followed by a digit is found; \<^verbatim>\<open>\d+\<close> is greedy
  and nothing follows it, so group 2 is the whole run of digits at that place.
  The result is group 2 of the first match.
\<close>

definition is_digit :: "char \<Rightarrow> bool" where
  "is_digit c = (CHR ''0'' \<le> c \<and> c \<le> CHR ''9'')"

definition digits_at :: "string \<Rightarrow> string option" where
  "digits_at s = (let ds = takeWhile is_digit s in if ds = [] then None else Some ds)"

definition match_classes :: "string \<Rightarrow> string option" where
  "match_classes s = (if prefix ''classes'' s then digits_at (drop 7 s) else None)"

fun first_some :: "('a \<Rightarrow> 'b option) \<Rightarrow> 'a list \<Rightarrow> 'b option" where
  "first_some f [] = None"
| "first_some f (x # xs) = (case f x of Some y \<Rightarrow> Some y | None \<Rightarrow> first_some f xs)"

definition match_hyphen :: "string \<Rightarrow> string option" where
  "match_hyphen s =
     (let n = length (takeWhile (\<lambda>c. c \<noteq> CHR 0x0A) s)
      in first_some
           (\<lambda>k. if k < length s \<and> s ! k = CHR ''-'' then digits_at (drop (Suc k) s) else None)
           (rev [0..<Suc n]))"

definition match_at :: "string \<Rightarrow> string option" where
  "match_at s = (case match_classes s of Some ds \<Rightarrow> Some ds | None \<Rightarrow> match_hyphen s)"

fun re_search :: "string \<Rightarrow> string option" where
  "re_search [] = match_at []"
| "re_search (c # cs) =
     (case match_at (c # cs) of Some ds \<Rightarrow> Some ds | None \<Rightarrow> re_search cs)"

text \<open>\<^verbatim>\<open>int(s)\<close> on a string of decimal digits.\<close>

definition digit_val :: "char \<Rightarrow> int" where
  "digit_val c = of_char c - 48"

definition int_of_digits :: "string \<Rightarrow> int" where
  "int_of_digits ds = foldl (\<lambda>a c. 10 * a + digit_val c) 0 ds"

definition extract_dex_number :: "string \<Rightarrow> py_exception + int" where
  "extract_dex_number dexfilename =
     (case re_search (basename dexfilename) of
        None \<Rightarrow> Inl (Exception (''Bad secondary dex name: '' @ dexfilename))
      | Some ds \<Rightarrow> Inr (int_of_digits ds))"

subsection \<open>\<^verbatim>\<open>dex_glob\<close>\<close>

text \<open>
  \<^verbatim>\<open>glob.glob(join(directory, "*.dex"))\<close>. \<^verbatim>\<open>glob\<close> splits the pattern with
  \<^verbatim>\<open>os.path.split\<close> into a directory part and \<^verbatim>\<open>*.dex\<close>. When the directory part has none
  of the characters \<^verbatim>\<open>*\<close>, \<^verbatim>\<open>?\<close> and \<^verbatim>\<open>[\<close>, it lists that directory, drops the hidden names
  (the pattern does not start with a dot), keeps the names that \<^verbatim>\<open>fnmatch\<close> accepts for
  \<^verbatim>\<open>*.dex\<close> (those ending in \<^verbatim>\<open>.dex\<close>) and joins each to the directory part, in listing order.
  When the directory part has one of these characters, it is a pattern itself: \<^verbatim>\<open>glob\<close> first
  expands it, and does the same in every directory it finds. Which directories a pattern
  matches, and what they hold, is a fact of the file system around the directory; it is the
  parameter \<open>iglob\<close>, which gives for a pattern the paths of the matching directories in the
  order \<^verbatim>\<open>glob\<close> yields them, each with its entries.
\<close>

definition ishidden :: "string \<Rightarrow> bool" where
  "ishidden name = prefix ''.'' name"

definition has_magic :: "string \<Rightarrow> bool" where
  "has_magic s = (\<exists>c \<in> set s. c = CHR ''*'' \<or> c = CHR ''?'' \<or> c = CHR ''['')"

definition glob1_dex :: "string \<Rightarrow> (string \<times> node) list \<Rightarrow> string list" where
  "glob1_dex dirname entries =
     map (join dirname)
       (filter (\<lambda>name. suffix ''.dex'' name)
          (filter (\<lambda>name. \<not> ishidden name) (map fst entries)))"

definition glob_dex ::
  "(string \<Rightarrow> (string \<times> (string \<times> node) list) list) \<Rightarrow> string \<Rightarrow> (string \<times> node) list
     \<Rightarrow> string list" where
  "glob_dex iglob directory entries =
     (let pathname = join directory ''*.dex'';
          dirname = split_head pathname
      in if dirname \<noteq> [] \<and> dirname \<noteq> pathname \<and> has_magic dirname
         then concat (map (\<lambda>(found, found_entries). glob1_dex found found_entries) (iglob dirname))
         else glob1_dex dirname entries)"

text \<open>\<^verbatim>\<open>list.sort(key=f)\<close>: the keys are computed first, in list order, and the first key
  function call that raises ends the sort with that exception; the sort is stable.\<close>

fun keys_of :: "('a \<Rightarrow> py_exception + int) \<Rightarrow> 'a list \<Rightarrow> py_exception + int list" where
  "keys_of f [] = Inr []"
| "keys_of f (x # xs) =
     (case f x of
        Inl e \<Rightarrow> Inl e
      | Inr k \<Rightarrow> (case keys_of f xs of Inl e \<Rightarrow> Inl e | Inr ks \<Rightarrow> Inr (k # ks)))"

definition sort_by_key :: "('a \<Rightarrow> py_exception + int) \<Rightarrow> 'a list \<Rightarrow> py_exception + 'a list" where
  "sort_by_key f xs =
     (case keys_of f xs of
        Inl e \<Rightarrow> Inl e
      | Inr ks \<Rightarrow> Inr (map snd (sort_key fst (zip ks xs))))"

definition secondaries ::
  "(string \<Rightarrow> (string \<times> (string \<times> node) list) list) \<Rightarrow> string \<Rightarrow> (string \<times> node) list
     \<Rightarrow> string list" where
  "secondaries iglob directory entries =
     filter (\<lambda>d. \<not> suffix ''classes.dex'' d) (glob_dex iglob directory entries)"

text \<open>\<open>entries\<close> are the entries of \<open>directory\<close>, in listing order.\<close>

definition dex_glob ::
  "(string \<Rightarrow> (string \<times> (string \<times> node) list) list) \<Rightarrow> string \<Rightarrow> (string \<times> node) list
     \<Rightarrow> py_exception + string list" where
  "dex_glob iglob directory entries =
     (let primary = join directory ''classes.dex''
      in if \<not> isfile entries ''classes.dex'' then Inl (Exception ''No primary dex found'')
         else (case sort_by_key extract_dex_number (secondaries iglob directory entries) of
                 Inl e \<Rightarrow> Inl e
               | Inr sorted_secondaries \<Rightarrow> Inr (primary # sorted_secondaries)))"

subsection \<open>Where the pattern can match\<close>

text \<open>\<open>digit_follows w s\<close>: some occurrence of \<open>w\<close> in \<open>s\<close> is immediately followed by a
  digit.\<close>

fun digit_follows :: "string \<Rightarrow> string \<Rightarrow> bool" where
  "digit_follows w [] = False"
| "digit_follows w (c # cs) =
     ((prefix w (c # cs) \<and> (case drop (length w) (c # cs) of [] \<Rightarrow> False | d # _ \<Rightarrow> is_digit d))
      \<or> digit_follows w cs)"


text \<open>What a match of the pattern is: a non-empty maximal run of digits standing right
  after \<^verbatim>\<open>classes\<close> or right after a hyphen.\<close>

definition number_in :: "string \<Rightarrow> string \<Rightarrow> bool" where
  "number_in s ds =
     (\<exists>pre post. s = pre @ ds @ post \<and> ds \<noteq> [] \<and> (\<forall>c \<in> set ds. is_digit c)
        \<and> (post = [] \<or> \<not> is_digit (hd post))
        \<and> (suffix ''classes'' pre \<or> suffix ''-'' pre))"

text \<open>
  Which digits the pattern picks, said without the search. The base name is taken line by
  line (a name without a newline is one line), and the number comes from the first line
  that has one. In a line it is: the digits right after \<^verbatim>\<open>classes\<close> when the line starts with
  \<^verbatim>\<open>classes\<close> and a digit; failing that, the digits right after the last hyphen that a digit
  follows; failing that, the digits right after the first \<^verbatim>\<open>classes\<close> that a digit follows.
\<close>

fun first_after :: "string \<Rightarrow> string \<Rightarrow> string option" where
  "first_after w [] = None"
| "first_after w (c # cs) =
     (case (if prefix w (c # cs) then digits_at (drop (length w) (c # cs)) else None) of
        Some ds \<Rightarrow> Some ds
      | None \<Rightarrow> first_after w cs)"

fun last_after :: "string \<Rightarrow> string \<Rightarrow> string option" where
  "last_after w [] = None"
| "last_after w (c # cs) =
     (case last_after w cs of
        Some ds \<Rightarrow> Some ds
      | None \<Rightarrow> (if prefix w (c # cs) then digits_at (drop (length w) (c # cs)) else None))"

fun split_lines :: "string \<Rightarrow> string list" where
  "split_lines [] = [[]]"
| "split_lines (c # cs) =
     (if c = CHR 0x0A then [] # split_lines cs
      else (case split_lines cs of [] \<Rightarrow> [[c]] | x # xs \<Rightarrow> (c # x) # xs))"

definition line_digits :: "string \<Rightarrow> string option" where
  "line_digits l =
     (case (if prefix ''classes'' l then digits_at (drop 7 l) else None) of
        Some ds \<Rightarrow> Some ds
      | None \<Rightarrow>
          (case last_after ''-'' l of
             Some ds \<Rightarrow> Some ds
           | None \<Rightarrow> first_after ''classes'' l))"

definition dex_number_digits :: "string \<Rightarrow> string option" where
  "dex_number_digits b = first_some line_digits (split_lines b)"

subsection \<open>The process state: temporary directories and external calls\<close>

text \<open>
  What the functions below do to the world outside is recorded as a trace of events: log
  lines, and the calls into collaborators that this file does not define (the dex modes
  and application modules of \<^verbatim>\<open>pyredex.unpacker\<close>, \<^verbatim>\<open>os.mkdir\<close>). Each such call may
  raise; whether it does is given by the \<open>raises\<close> oracle of the collaborators, which sees
  the trace so far. The module-level list \<^verbatim>\<open>temp_dirs\<close> and the temporary directories that
  exist are part of the state.
\<close>

record app_module =
  get_name :: string
  get_canary_prefix :: "string option"

datatype event =
    Log string
  | Mkdir string
  | DexUnpackage string string string
  | ModuleUnpackage app_module string string
  | ModuleWriteMetadata app_module string string
  | DexRepackage string string string bool bool
  | ModuleRepackage app_module string string bool nat bool

record world =
  temp_dirs :: "string list"
  tmp_fs :: "string \<rightharpoonup> node"
  trace :: "event list"

text \<open>The collaborators: \<open>detect_secondary_dex_mode\<close> returns a dex mode, identified by its
  class name; \<open>detect\<close> is \<^verbatim>\<open>ApplicationModule.detect\<close>; \<open>mkdtemp\<close> is \<^verbatim>\<open>tempfile.mkdtemp\<close>,
  which picks the path of the directory it creates.\<close>

record collaborators =
  detect_secondary_dex_mode :: "string \<Rightarrow> string"
  detect :: "string \<Rightarrow> app_module list"
  mkdtemp :: "world \<Rightarrow> string \<Rightarrow> string"
  raises :: "event list \<Rightarrow> event \<Rightarrow> py_exception option"

definition log :: "string \<Rightarrow> world \<Rightarrow> world" where
  "log msg w = w\<lparr>trace := trace w @ [Log msg]\<rparr>"

definition ext_call :: "collaborators \<Rightarrow> event \<Rightarrow> world \<Rightarrow> py_exception option \<times> world" where
  "ext_call c e w = (raises c (trace w) e, w\<lparr>trace := trace w @ [e]\<rparr>)"

subsection \<open>\<^verbatim>\<open>make_temp_dir\<close>, \<^verbatim>\<open>remove_temp_dirs\<close>, \<^verbatim>\<open>with_temp_cleanup\<close>\<close>

definition make_temp_dir :: "collaborators \<Rightarrow> string \<Rightarrow> bool \<Rightarrow> world \<Rightarrow> string \<times> world" where
  "make_temp_dir c name debug w =
     (let directory = mkdtemp c w name;
          w1 = w\<lparr>tmp_fs := (tmp_fs w)(directory \<mapsto> Dir [])\<rparr>
      in (directory, if \<not> debug then w1\<lparr>temp_dirs := temp_dirs w1 @ [directory]\<rparr> else w1))"

text \<open>\<^verbatim>\<open>shutil.rmtree\<close> of a temporary directory: it raises when the path is missing or is
  not a directory.\<close>

definition rmtree :: "string \<Rightarrow> (string \<rightharpoonup> node) \<Rightarrow> py_exception + (string \<rightharpoonup> node)" where
  "rmtree directory fs =
     (case fs directory of
        None \<Rightarrow> Inl (FileNotFoundError directory)
      | Some (File _) \<Rightarrow> Inl (NotADirectoryError directory)
      | Some (Dir _) \<Rightarrow> Inr (fs(directory := None)))"

fun rmtree_each :: "string list \<Rightarrow> (string \<rightharpoonup> node) \<Rightarrow> py_exception option \<times> (string \<rightharpoonup> node)" where
  "rmtree_each [] fs = (None, fs)"
| "rmtree_each (directory # rest) fs =
     (case rmtree directory fs of
        Inl e \<Rightarrow> (Some e, fs)
      | Inr fs' \<Rightarrow> rmtree_each rest fs')"

definition remove_temp_dirs :: "world \<Rightarrow> py_exception option \<times> world" where
  "remove_temp_dirs w =
     (case rmtree_each (temp_dirs w) (tmp_fs w) of (r, fs) \<Rightarrow> (r, w\<lparr>tmp_fs := fs\<rparr>))"

text \<open>The wrapped function \<open>fn\<close> takes the world and returns the exception it raised, if
  any, and the world it left. The \<^verbatim>\<open>finally\<close> block runs on both paths; an exception raised
  inside it replaces the one in flight.\<close>

definition with_temp_cleanup ::
  "(world \<Rightarrow> py_exception option \<times> world) \<Rightarrow> bool \<Rightarrow> world \<Rightarrow> py_exception option \<times> world" where
  "with_temp_cleanup fn always_clean w =
     (let success = always_clean
      in case fn w of
           (None, w1) \<Rightarrow>
             (let success = True
              in if success then remove_temp_dirs w1 else (None, w1))
         | (Some e, w1) \<Rightarrow>
             (if success
              then (case remove_temp_dirs w1 of
                      (None, w2) \<Rightarrow> (Some e, w2)
                    | (Some e', w2) \<Rightarrow> (Some e', w2))
              else (Some e, w1)))"


subsection \<open>\<^verbatim>\<open>UnpackManager\<close>\<close>

text \<open>\<^verbatim>\<open>str(n)\<close> for a non-negative integer, and \<^verbatim>\<open>"%s" % b\<close> for a boolean.\<close>

definition digit_char :: "nat \<Rightarrow> char" where
  "digit_char d = char_of (48 + d)"

function str_nat :: "nat \<Rightarrow> string" where
  "str_nat n = (if n < 10 then [digit_char n] else str_nat (n div 10) @ [digit_char (n mod 10)])"
  by pat_completeness auto
termination
  by (relation "measure id") auto

declare str_nat.simps [simp del]

definition str_bool :: "bool \<Rightarrow> string" where
  "str_bool b = (if b then ''True'' else ''False'')"

text \<open>\<^verbatim>\<open>os.path.splitext(file_name)[1]\<close>: the extension starts at the last dot of the last
  path component, provided a character other than a dot stands before it there.\<close>

definition get_file_ext :: "string \<Rightarrow> string" where
  "get_file_ext file_name =
     (let b = basename file_name;
          before_dot = butlast (rev (dropWhile (\<lambda>c. c \<noteq> CHR ''.'') (rev b)))
      in if CHR ''.'' \<in> set b \<and> (\<exists>c \<in> set before_dot. c \<noteq> CHR ''.'')
         then CHR ''.'' # rev (takeWhile (\<lambda>c. c \<noteq> CHR ''.'') (rev b))
         else [])"

definition get_dex_file_path :: "string \<Rightarrow> string \<Rightarrow> string" where
  "get_dex_file_path input_apk extracted_apk_dir =
     (if get_file_ext input_apk = ''.aab''
      then join (join extracted_apk_dir ''base'') ''dex''
      else extracted_apk_dir)"

record unpack_manager =
  input_apk :: string
  extracted_apk_dir :: string
  dex_dir :: string
  have_locators :: bool
  debug_mode :: bool
  fast_repackage :: bool
  dex_mode :: "string option"
  application_modules :: "app_module list"

text \<open>\<^verbatim>\<open>UnpackManager.__init__\<close>; \<open>dex_mode\<close> is not set before \<^verbatim>\<open>__enter__\<close>, and
  \<open>application_modules\<close> reads the empty list of the class until \<^verbatim>\<open>__enter__\<close> assigns it.\<close>

definition UnpackManager_init ::
  "string \<Rightarrow> string \<Rightarrow> string \<Rightarrow> bool \<Rightarrow> bool \<Rightarrow> bool \<Rightarrow> unpack_manager" where
  "UnpackManager_init apk extracted dexes locators debug fast =
     \<lparr>input_apk = apk, extracted_apk_dir = extracted, dex_dir = dexes,
      have_locators = locators, debug_mode = debug, fast_repackage = fast,
      dex_mode = None, application_modules = []\<rparr>"

text \<open>The loop of \<^verbatim>\<open>__enter__\<close> over the detected modules.\<close>

fun unpack_modules ::
  "collaborators \<Rightarrow> unpack_manager \<Rightarrow> string \<Rightarrow> app_module list \<Rightarrow> string list \<Rightarrow> world
     \<Rightarrow> (py_exception + string list) \<times> world" where
  "unpack_modules c self store_metadata_dir [] store_files w = (Inr store_files, w)"
| "unpack_modules c self store_metadata_dir (md # rest) store_files w =
     (let canary_prefix = get_canary_prefix md;
          w1 = log (''found module: '' @ get_name md @ '' '' @
                    (case canary_prefix of Some p \<Rightarrow> p | None \<Rightarrow> ''(no canary prefix)'')) w;
          store_path = join (dex_dir self) (get_name md)
      in case ext_call c (Mkdir store_path) w1 of
           (Some e, w2) \<Rightarrow> (Inl e, w2)
         | (None, w2) \<Rightarrow>
         (case ext_call c (ModuleUnpackage md (extracted_apk_dir self) store_path) w2 of
           (Some e, w3) \<Rightarrow> (Inl e, w3)
         | (None, w3) \<Rightarrow>
         (let store_metadata = join store_metadata_dir (get_name md @ ''.json'')
          in case ext_call c (ModuleWriteMetadata md store_path store_metadata) w3 of
               (Some e, w4) \<Rightarrow> (Inl e, w4)
             | (None, w4) \<Rightarrow>
                 unpack_modules c self store_metadata_dir rest (store_files @ [store_metadata]) w4)))"

definition UnpackManager_enter ::
  "collaborators \<Rightarrow> unpack_manager \<Rightarrow> world
     \<Rightarrow> (py_exception + string list) \<times> unpack_manager \<times> world" where
  "UnpackManager_enter c self w =
     (let dex_file_path = get_dex_file_path (input_apk self) (extracted_apk_dir self);
          mode = detect_secondary_dex_mode c dex_file_path;
          self1 = self\<lparr>dex_mode := Some mode\<rparr>;
          w1 = log (''Detected dex mode '' @ mode) w;
          w2 = log ''Unpacking dex files'' w1
      in case ext_call c (DexUnpackage mode dex_file_path (dex_dir self1)) w2 of
           (Some e, w3) \<Rightarrow> (Inl e, self1, w3)
         | (None, w3) \<Rightarrow>
         (let w4 = log ''Detecting Application Modules'' w3;
              (store_metadata_dir, w5) =
                 make_temp_dir c ''.application_module_metadata'' (debug_mode self1) w4;
              self2 = self1\<lparr>application_modules := detect c (extracted_apk_dir self1)\<rparr>
          in case unpack_modules c self2 store_metadata_dir (application_modules self2) [] w5 of
               (r, w6) \<Rightarrow> (r, self2, w6)))"

text \<open>The loop of \<^verbatim>\<open>__exit__\<close> over \<^verbatim>\<open>self.application_modules\<close>, with its counter.\<close>

fun repack_modules ::
  "collaborators \<Rightarrow> unpack_manager \<Rightarrow> app_module list \<Rightarrow> nat \<Rightarrow> world
     \<Rightarrow> py_exception option \<times> world" where
  "repack_modules c self [] locator_store_id w = (None, w)"
| "repack_modules c self (md # rest) locator_store_id w =
     (let w1 = log (''repacking module: '' @ get_name md @ '' with id '' @
                    str_nat locator_store_id) w
      in case ext_call c (ModuleRepackage md (extracted_apk_dir self) (dex_dir self)
                            (have_locators self) locator_store_id (fast_repackage self)) w1 of
           (Some e, w2) \<Rightarrow> (Some e, w2)
         | (None, w2) \<Rightarrow> repack_modules c self rest (locator_store_id + 1) w2)"

definition UnpackManager_exit ::
  "collaborators \<Rightarrow> unpack_manager \<Rightarrow> world \<Rightarrow> py_exception option \<times> world" where
  "UnpackManager_exit c self w =
     (let w1 = log ''Repacking dex files'' w;
          w2 = log (''Emit Locator Strings: '' @ str_bool (have_locators self)) w1
      in case dex_mode self of
           None \<Rightarrow> (Some (AttributeError ''dex_mode''), w2)
         | Some mode \<Rightarrow>
         (case ext_call c (DexRepackage mode
                             (get_dex_file_path (input_apk self) (extracted_apk_dir self))
                             (dex_dir self) (have_locators self) (fast_repackage self)) w2 of
            (Some e, w3) \<Rightarrow> (Some e, w3)
          | (None, w3) \<Rightarrow>
              (let locator_store_id = 1
               in repack_modules c self (application_modules self) locator_store_id w3)))"

text \<open>The module calls a trace holds: who was unpacked, and who was repacked with which
  locator id.\<close>

fun module_unpacks :: "event list \<Rightarrow> app_module list" where
  "module_unpacks [] = []"
| "module_unpacks (ModuleUnpackage md _ _ # es) = md # module_unpacks es"
| "module_unpacks (_ # es) = module_unpacks es"

fun module_repacks :: "event list \<Rightarrow> (app_module \<times> nat) list" where
  "module_repacks [] = []"
| "module_repacks (ModuleRepackage md _ _ _ i _ # es) = (md, i) # module_repacks es"
| "module_repacks (_ # es) = module_repacks es"


subsection \<open>\<^verbatim>\<open>os.walk\<close>\<close>

definition is_dir :: "node \<Rightarrow> bool" where
  "is_dir t = (case t of Dir _ \<Rightarrow> True | File _ \<Rightarrow> False)"

definition dirnames_of :: "(string \<times> node) list \<Rightarrow> string list" where
  "dirnames_of entries = map fst (filter (\<lambda>(name, t). is_dir t) entries)"

definition filenames_of :: "(string \<times> node) list \<Rightarrow> string list" where
  "filenames_of entries = map fst (filter (\<lambda>(name, t). \<not> is_dir t) entries)"

text \<open>
  \<^verbatim>\<open>os.walk(top)\<close>, top-down: it scans \<open>top\<close>, yields \<open>(top, dirnames, filenames)\<close> with the
  names in listing order, and then walks into \<open>join(top, dirname)\<close> for each name of the
  list \<open>dirnames\<close> as the consumer left it; \<open>visit\<close> is what the body of the consuming loop does
  to that list in place. A path that cannot be scanned yields nothing. The tuples here
  carry the entries of the directory as a fourth component, so that a consumer that asks
  the file system about \<open>join(root, filename)\<close> can be answered.
\<close>

function os_walk ::
  "(string list \<Rightarrow> string list) \<Rightarrow> string \<Rightarrow> node
     \<Rightarrow> (string \<times> string list \<times> string list \<times> (string \<times> node) list) list" where
  "os_walk visit path (File z) = []"
| "os_walk visit path (Dir entries) =
     (path, dirnames_of entries, filenames_of entries, entries) #
     concat (map (\<lambda>dirname. case map_of entries dirname of
                                None \<Rightarrow> []
                              | Some t \<Rightarrow> os_walk visit (join path dirname) t)
                 (visit (dirnames_of entries)))"
  by pat_completeness auto
termination
proof (relation "measure (\<lambda>(visit, path, t). size t)")
  show "wf (measure (\<lambda>(visit, path, t). size t))" by simp
next
  fix visit :: "string list \<Rightarrow> string list" and path :: string
    and entries :: "(string \<times> node) list" and dirname t
  assume "map_of entries dirname = Some t"
  then have "size t < Suc (size_list (size_prod (\<lambda>_. 0) size) entries)"
    by (induction entries) (auto split: if_splits)
  then show "((visit, join path dirname, t), (visit, path, Dir entries))
               \<in> measure (\<lambda>(visit, path, t). size t)"
    by simp
qed

text \<open>The walk from the top: \<^verbatim>\<open>os.scandir('')\<close> raises, so the empty path yields nothing.\<close>

definition walk ::
  "(string list \<Rightarrow> string list) \<Rightarrow> string \<Rightarrow> node
     \<Rightarrow> (string \<times> string list \<times> string list \<times> (string \<times> node) list) list" where
  "walk visit path tree = (if path = [] then [] else os_walk visit path tree)"

subsection \<open>\<^verbatim>\<open>ZipManager\<close>\<close>

text \<open>
  The compression methods are the constants of \<^verbatim>\<open>zipfile\<close>. The input archive is the list
  \<^verbatim>\<open>z.infolist()\<close> of its entries, each a file name and a compression method.
  \<^verbatim>\<open>per_file_compression\<close> is an attribute of the class, not of the instance: \<^verbatim>\<open>__enter__\<close>
  writes into the one dictionary that all instances share, so the dictionary is state that
  goes into \<^verbatim>\<open>__enter__\<close> and comes out of it.
\<close>

definition ZIP_STORED :: nat where "ZIP_STORED = 0"

definition ZIP_DEFLATED :: nat where "ZIP_DEFLATED = 8"

definition class_per_file_compression :: "string \<rightharpoonup> nat" where
  "class_per_file_compression = Map.empty"

definition ZipManager_enter :: "(string \<rightharpoonup> nat) \<Rightarrow> (string \<times> nat) list \<Rightarrow> (string \<rightharpoonup> nat)" where
  "ZipManager_enter per_file_compression infolist =
     foldl (\<lambda>table (filename, compress_type). table(filename \<mapsto> compress_type))
       per_file_compression infolist"

text \<open>
  \<^verbatim>\<open>__exit__\<close>, from the creation of the output archive on: the result is the list of the
  calls \<^verbatim>\<open>new_apk.write(filepath, archivepath, compress_type=compress)\<close> in the order in
  which they are made. The tree is the extracted directory as \<^verbatim>\<open>os.walk\<close> finds it, that is
  after \<^verbatim>\<open>remove_signature_files\<close>. The loop body sorts \<open>dirnames\<close> in place and goes through
  \<open>sorted(filenames)\<close>.
\<close>

definition zip_entry :: "(string \<rightharpoonup> nat) \<Rightarrow> string \<Rightarrow> string \<Rightarrow> string \<Rightarrow> string \<times> string \<times> nat" where
  "zip_entry per_file_compression extracted_dir dirpath filename =
     (let filepath = join dirpath filename;
          archivepath = drop (length extracted_dir + 1) filepath;
          compress = (case per_file_compression archivepath of
                        Some c \<Rightarrow> c
                      | None \<Rightarrow> ZIP_DEFLATED)
      in (filepath, archivepath, compress))"

definition zip_directory ::
  "(string \<rightharpoonup> nat) \<Rightarrow> string
     \<Rightarrow> string \<times> string list \<times> string list \<times> (string \<times> node) list \<Rightarrow> (string \<times> string \<times> nat) list" where
  "zip_directory per_file_compression extracted_dir =
     (\<lambda>(dirpath, dirnames, filenames, entries).
        map (zip_entry per_file_compression extracted_dir dirpath) (sort filenames))"

definition ZipManager_exit :: "(string \<rightharpoonup> nat) \<Rightarrow> string \<Rightarrow> node \<Rightarrow> (string \<times> string \<times> nat) list" where
  "ZipManager_exit per_file_compression extracted_dir tree =
     concat (map (zip_directory per_file_compression extracted_dir)
               (walk sort extracted_dir tree))"

text \<open>Two trees hold the same files and directories when they differ at most in the order
  in which their directories list their entries. \<open>distinct_names\<close>: no directory has two
  entries of one name, as in every file system.\<close>

function distinct_names :: "node \<Rightarrow> bool" where
  "distinct_names (File z) = True"
| "distinct_names (Dir entries) =
     (distinct (map fst entries) \<and>
      (\<forall>name \<in> set (map fst entries).
         case map_of entries name of None \<Rightarrow> True | Some t \<Rightarrow> distinct_names t))"
  by pat_completeness auto
termination
proof (relation "measure size")
  show "wf (measure (size :: node \<Rightarrow> nat))" by simp
next
  fix entries :: "(string \<times> node) list" and name t
  assume "map_of entries name = Some t"
  then have "size t < Suc (size_list (size_prod (\<lambda>_. 0) size) entries)"
    by (induction entries) (auto split: if_splits)
  then show "(t, Dir entries) \<in> measure size" by simp
qed

function (sequential) same_tree :: "node \<Rightarrow> node \<Rightarrow> bool" where
  "same_tree (File z) (File z') = (z = z')"
| "same_tree (Dir entries) (Dir entries') =
     (set (map fst entries) = set (map fst entries') \<and>
      (\<forall>name \<in> set (map fst entries).
         case map_of entries name of
           None \<Rightarrow> True
         | Some t \<Rightarrow> (case map_of entries' name of None \<Rightarrow> False | Some t' \<Rightarrow> same_tree t t')))"
| "same_tree _ _ = False"
  by pat_completeness auto
termination
proof (relation "measure (\<lambda>(t, t'). size t)")
  show "wf (measure (\<lambda>(t :: node, t' :: node). size t))" by simp
next
  fix entries entries' :: "(string \<times> node) list" and name t t'
  assume "map_of entries name = Some t"
  then have "size t < Suc (size_list (size_prod (\<lambda>_. 0) size) entries)"
    by (induction entries) (auto split: if_splits)
  then show "((t, t'), (Dir entries, Dir entries')) \<in> measure (\<lambda>(t, t'). size t)"
    by simp
qed


text \<open>The calls that \<^verbatim>\<open>__exit__\<close> makes for the subtree at \<open>path\<close>, and what a consumer
  that sorts both name lists sees of a tuple of the walk.\<close>

definition zip_from :: "(string \<rightharpoonup> nat) \<Rightarrow> string \<Rightarrow> string \<Rightarrow> node \<Rightarrow> (string \<times> string \<times> nat) list" where
  "zip_from per_file_compression extracted_dir path tree =
     concat (map (zip_directory per_file_compression extracted_dir) (os_walk sort path tree))"

definition sorted_view ::
  "string \<times> string list \<times> string list \<times> (string \<times> node) list \<Rightarrow> string \<times> string list \<times> string list" where
  "sorted_view = (\<lambda>(dirpath, dirnames, filenames, entries). (dirpath, sort dirnames, sort filenames))"


subsection \<open>The extracted tree as a file system\<close>

text \<open>
  \<^verbatim>\<open>LibraryManager\<close> looks into the extracted tree and changes it. A path is resolved
  against the tree by taking off the path of its root and splitting the rest at the
  separators; nothing outside the tree is modelled, and a path outside it does not exist.
\<close>

fun split_slash :: "string \<Rightarrow> string list" where
  "split_slash [] = [[]]"
| "split_slash (c # cs) =
     (if c = CHR ''/'' then [] # split_slash cs
      else (case split_slash cs of [] \<Rightarrow> [[c]] | x # xs \<Rightarrow> (c # x) # xs))"

definition components :: "string \<Rightarrow> string \<Rightarrow> string list option" where
  "components root p =
     (let pre = (if root = [] \<or> suffix ''/'' root then root else root @ ''/'')
      in if p = root then Some []
         else if prefix pre p then Some (split_slash (drop (length pre) p))
         else None)"

fun fs_lookup :: "node \<Rightarrow> string list \<Rightarrow> node option" where
  "fs_lookup t [] = Some t"
| "fs_lookup (File z) (c # cs) = None"
| "fs_lookup (Dir es) (c # cs) =
     (case map_of es c of None \<Rightarrow> None | Some t \<Rightarrow> fs_lookup t cs)"

definition replace_entry :: "string \<Rightarrow> node \<Rightarrow> (string \<times> node) list \<Rightarrow> (string \<times> node) list" where
  "replace_entry name t es = map (\<lambda>(n, u). if n = name then (n, t) else (n, u)) es"

definition remove_entry :: "string \<Rightarrow> (string \<times> node) list \<Rightarrow> (string \<times> node) list" where
  "remove_entry name es = filter (\<lambda>(n, u). n \<noteq> name) es"

text \<open>\<^verbatim>\<open>os.mkdir\<close>: the parent has to be a directory and the name has to be free. Where the
  new entry comes in the listing is up to the file system; here it comes last.\<close>

fun fs_mkdir :: "node \<Rightarrow> string list \<Rightarrow> string \<Rightarrow> py_exception + node" where
  "fs_mkdir t [] p = Inl (FileExistsError p)"
| "fs_mkdir (File z) (c # cs) p = Inl (NotADirectoryError p)"
| "fs_mkdir (Dir es) [c] p =
     (if map_of es c \<noteq> None then Inl (FileExistsError p)
      else Inr (Dir (es @ [(c, Dir [])])))"
| "fs_mkdir (Dir es) (c # cs) p =
     (case map_of es c of
        None \<Rightarrow> Inl (FileNotFoundError p)
      | Some t \<Rightarrow>
          (case fs_mkdir t cs p of
             Inl e \<Rightarrow> Inl e
           | Inr t' \<Rightarrow> Inr (Dir (replace_entry c t' es))))"

text \<open>\<^verbatim>\<open>shutil.rmtree\<close>: the path has to be a directory; it goes with all it holds. The root
  of the tree is never the target here.\<close>

fun fs_rmtree :: "node \<Rightarrow> string list \<Rightarrow> string \<Rightarrow> py_exception + node" where
  "fs_rmtree t [] p = Inl (FileNotFoundError p)"
| "fs_rmtree (File z) (c # cs) p = Inl (NotADirectoryError p)"
| "fs_rmtree (Dir es) [c] p =
     (case map_of es c of
        None \<Rightarrow> Inl (FileNotFoundError p)
      | Some (File z) \<Rightarrow> Inl (NotADirectoryError p)
      | Some (Dir _) \<Rightarrow> Inr (Dir (remove_entry c es)))"
| "fs_rmtree (Dir es) (c # cs) p =
     (case map_of es c of
        None \<Rightarrow> Inl (FileNotFoundError p)
      | Some t \<Rightarrow>
          (case fs_rmtree t cs p of
             Inl e \<Rightarrow> Inl e
           | Inr t' \<Rightarrow> Inr (Dir (replace_entry c t' es))))"

text \<open>A file of the given size written at a path by an external program: created or
  overwritten when its parent is a directory and the path is not one.\<close>

fun fs_write :: "node \<Rightarrow> string list \<Rightarrow> nat \<Rightarrow> node" where
  "fs_write t [] z = t"
| "fs_write (File y) (c # cs) z = File y"
| "fs_write (Dir es) [c] z =
     (case map_of es c of
        None \<Rightarrow> Dir (es @ [(c, File z)])
      | Some (File _) \<Rightarrow> Dir (replace_entry c (File z) es)
      | Some (Dir _) \<Rightarrow> Dir es)"
| "fs_write (Dir es) (c # cs) z =
     (case map_of es c of
        None \<Rightarrow> Dir es
      | Some t \<Rightarrow> Dir (replace_entry c (fs_write t cs z) es))"

definition os_path_exists :: "string \<Rightarrow> node \<Rightarrow> string \<Rightarrow> bool" where
  "os_path_exists root tree p =
     (case components root p of None \<Rightarrow> False | Some cs \<Rightarrow> fs_lookup tree cs \<noteq> None)"

definition os_mkdir :: "string \<Rightarrow> node \<Rightarrow> string \<Rightarrow> py_exception + node" where
  "os_mkdir root tree p =
     (case components root p of None \<Rightarrow> Inl (FileNotFoundError p) | Some cs \<Rightarrow> fs_mkdir tree cs p)"

definition shutil_rmtree :: "string \<Rightarrow> node \<Rightarrow> string \<Rightarrow> py_exception + node" where
  "shutil_rmtree root tree p =
     (case components root p of None \<Rightarrow> Inl (FileNotFoundError p) | Some cs \<Rightarrow> fs_rmtree tree cs p)"

definition write_file :: "string \<Rightarrow> node \<Rightarrow> string \<Rightarrow> nat \<Rightarrow> node" where
  "write_file root tree p z =
     (case components root p of None \<Rightarrow> tree | Some cs \<Rightarrow> fs_write tree cs z)"

subsection \<open>\<^verbatim>\<open>ensure_libs_dir\<close> and \<^verbatim>\<open>LibraryManager\<close>\<close>

text \<open>\<^verbatim>\<open>ensure_libs_dir\<close> returns the topmost directory it created, or the exception of the
  \<^verbatim>\<open>os.mkdir\<close> that failed, and the tree as it then is. \<open>root\<close> is the path of the tree.\<close>

definition ensure_libs_dir ::
  "string \<Rightarrow> node \<Rightarrow> string \<Rightarrow> string \<Rightarrow> (py_exception + string) \<times> node" where
  "ensure_libs_dir root tree libs_dir sub_dir =
     (if os_path_exists root tree libs_dir
      then (case os_mkdir root tree sub_dir of
              Inl e \<Rightarrow> (Inl e, tree)
            | Inr tree1 \<Rightarrow> (Inr sub_dir, tree1))
      else (case os_mkdir root tree libs_dir of
              Inl e \<Rightarrow> (Inl e, tree)
            | Inr tree1 \<Rightarrow>
                (case os_mkdir root tree1 sub_dir of
                   Inl e \<Rightarrow> (Inl e, tree1)
                 | Inr tree2 \<Rightarrow> (Inr libs_dir, tree2))))"

definition xz_lib_name :: string where "xz_lib_name = ''libs.xzs''"

definition zstd_lib_name :: string where "zstd_lib_name = ''libs.zstd''"

text \<open>\<^verbatim>\<open>os.path.getsize(join(root, filename))\<close> for a name that the walk listed among the
  files of the directory with these entries.\<close>

definition file_size :: "node \<Rightarrow> nat" where
  "file_size t = (case t of File z \<Rightarrow> z | Dir _ \<Rightarrow> 0)"

definition getsize :: "(string \<times> node) list \<Rightarrow> string \<Rightarrow> nat" where
  "getsize entries filename = (case map_of entries filename of None \<Rightarrow> 0 | Some t \<Rightarrow> file_size t)"

text \<open>The body of the walk loop of \<^verbatim>\<open>__enter__\<close> for one directory: \<^verbatim>\<open>fnmatch.filter\<close> with
  a pattern without wildcards keeps the names equal to it; the \<^verbatim>\<open>libs.xzs\<close> files are
  appended first, then the \<^verbatim>\<open>libs.zstd\<close> files of positive size.\<close>

definition libs_in ::
  "string \<times> string list \<times> string list \<times> (string \<times> node) list \<Rightarrow> string list" where
  "libs_in =
     (\<lambda>(root, dirnames, filenames, entries).
        map (join root) (filter (\<lambda>filename. filename = xz_lib_name) filenames) @
        map (join root)
          (filter (\<lambda>filename. 0 < getsize entries filename)
             (filter (\<lambda>filename. filename = zstd_lib_name) filenames)))"

definition libs_to_extract :: "string \<Rightarrow> node \<Rightarrow> string list" where
  "libs_to_extract apk_dir tree = concat (map libs_in (walk (\<lambda>dirnames. dirnames) apk_dir tree))"

text \<open>
  The decompression loop. \<open>shell\<close> stands for \<^verbatim>\<open>subprocess.check_call(cmd, shell=True)\<close>:
  for a command line it tells whether the exit status was zero and, if the command left a
  file at its output path, the size of that file. A non-zero status raises.
\<close>

definition extract_cmd :: "string \<Rightarrow> string \<Rightarrow> string" where
  "extract_cmd lib_to_extract extract_path =
     (if suffix xz_lib_name lib_to_extract
      then ''xz -d --stdout '' @ lib_to_extract @ '' > '' @ extract_path
      else ''zstd -d '' @ lib_to_extract @ '' -o '' @ extract_path)"

fun extract_libs ::
  "(string \<Rightarrow> bool \<times> nat option) \<Rightarrow> string \<Rightarrow> string \<Rightarrow> string list \<Rightarrow> nat \<Rightarrow> node \<Rightarrow> string list
     \<Rightarrow> py_exception option \<times> node \<times> string list" where
  "extract_libs shell apk_dir extracted_dir [] lib_count tree cmds = (None, tree, cmds)"
| "extract_libs shell apk_dir extracted_dir (lib_to_extract # rest) lib_count tree cmds =
     (let extract_path = join extracted_dir (''lib_'' @ str_nat lib_count @ ''.so'');
          cmd = extract_cmd lib_to_extract extract_path;
          (ok, out) = shell cmd;
          tree1 = (case out of None \<Rightarrow> tree | Some z \<Rightarrow> write_file apk_dir tree extract_path z)
      in if \<not> ok then (Some (CalledProcessError cmd), tree1, cmds @ [cmd])
         else extract_libs shell apk_dir extracted_dir rest (lib_count + 1) tree1 (cmds @ [cmd]))"

text \<open>\<^verbatim>\<open>__enter__\<close> and \<^verbatim>\<open>__exit__\<close>. The state of the manager is \<open>apk_dir\<close>, its
  \<^verbatim>\<open>extracted_apk_dir\<close>, and \<open>temporary_libs_dir\<close>, which reads \<^verbatim>\<open>None\<close> from the class until
  \<^verbatim>\<open>__enter__\<close> assigns it. The result is the exception raised, if any, the new
  \<open>temporary_libs_dir\<close>, the tree, and the command lines run.\<close>

definition LibraryManager_enter ::
  "(string \<Rightarrow> bool \<times> nat option) \<Rightarrow> string \<Rightarrow> string option \<Rightarrow> node
     \<Rightarrow> py_exception option \<times> string option \<times> node \<times> string list" where
  "LibraryManager_enter shell apk_dir temporary_libs_dir tree =
     (let libs = libs_to_extract apk_dir tree
      in if length libs > 0
         then (let libs_dir = join apk_dir ''lib'';
                   extracted_dir = join libs_dir ''__extracted_libs__''
               in case ensure_libs_dir apk_dir tree libs_dir extracted_dir of
                    (Inl e, tree1) \<Rightarrow> (Some e, temporary_libs_dir, tree1, [])
                  | (Inr created, tree1) \<Rightarrow>
                      (case extract_libs shell apk_dir extracted_dir libs 0 tree1 [] of
                         (r, tree2, cmds) \<Rightarrow> (r, Some created, tree2, cmds)))
         else (None, temporary_libs_dir, tree, []))"

definition LibraryManager_exit ::
  "string \<Rightarrow> string option \<Rightarrow> node \<Rightarrow> py_exception option \<times> node" where
  "LibraryManager_exit apk_dir temporary_libs_dir tree =
     (case temporary_libs_dir of
        None \<Rightarrow> (None, tree)
      | Some d \<Rightarrow>
          (case shutil_rmtree apk_dir tree d of
             Inl e \<Rightarrow> (Some e, tree)
           | Inr tree1 \<Rightarrow> (None, tree1)))"

text \<open>Every file under the tree with its full path, its name and its size; and what of a
  node is seen without looking into it.\<close>

function all_files :: "string \<Rightarrow> node \<Rightarrow> (string \<times> string \<times> nat) list" where
  "all_files path (File z) = []"
| "all_files path (Dir es) =
     map (\<lambda>(name, t). (join path name, name, file_size t)) (filter (\<lambda>(name, t). \<not> is_dir t) es) @
     concat (map (\<lambda>(name, t). all_files (join path name) t) (filter (\<lambda>(name, t). is_dir t) es))"
  by pat_completeness auto
termination
proof (relation "measure (\<lambda>(path, t). size t)")
  show "wf (measure (\<lambda>(path :: string, t :: node). size t))" by simp
next
  fix path :: string and es :: "(string \<times> node) list" and x name t
  assume "x \<in> set (filter (\<lambda>(name, t). is_dir t) es)" and "(name, t) = x"
  then have "(name, t) \<in> set es" by simp
  then have "size t < Suc (size_list (size_prod (\<lambda>_. 0) size) es)"
    by (induction es) auto
  then show "((join path name, t), (path, Dir es)) \<in> measure (\<lambda>(path, t). size t)"
    by simp
qed

datatype kind = RegularFile nat | Directory

definition kind_of :: "node \<Rightarrow> kind" where
  "kind_of t = (case t of File z \<Rightarrow> RegularFile z | Dir _ \<Rightarrow> Directory)"

text \<open>The files that \<^verbatim>\<open>__enter__\<close> is to queue: those named \<^verbatim>\<open>libs.xzs\<close>, and those named
  \<^verbatim>\<open>libs.zstd\<close> that are not empty.\<close>

definition wanted :: "string \<times> string \<times> nat \<Rightarrow> bool" where
  "wanted = (\<lambda>(path, name, z). name = xz_lib_name \<or> (name = zstd_lib_name \<and> 0 < z))"


subsection \<open>Example inputs\<close>

text \<open>Collaborators that never raise and detect two modules, \<^verbatim>\<open>zeta\<close> before \<^verbatim>\<open>alpha\<close>; a
  wrapped function that registers a temporary directory and then raises; the world before
  anything has run.\<close>

definition example_collaborators :: collaborators where
  "example_collaborators =
     \<lparr>detect_secondary_dex_mode = (\<lambda>p. ''XZSDexMode''),
      detect = (\<lambda>d. [\<lparr>get_name = ''zeta'', get_canary_prefix = None\<rparr>,
                      \<lparr>get_name = ''alpha'', get_canary_prefix = Some ''al''\<rparr>]),
      mkdtemp = (\<lambda>w name. ''/tmp/tmp0'' @ name),
      raises = (\<lambda>tr e. None)\<rparr>"

definition failing_run :: "world \<Rightarrow> py_exception option \<times> world" where
  "failing_run w = (Some (Exception ''boom''), snd (make_temp_dir example_collaborators ''.work'' False w))"

definition empty_world :: world where
  "empty_world = \<lparr>temp_dirs = [], tmp_fs = Map.empty, trace = []\<rparr>"

definition example_manager :: unpack_manager where
  "example_manager = UnpackManager_init ''in.apk'' ''ex'' ''dex'' True False False"


text \<open>An extracted tree, and the same tree as another listing order would show it.\<close>

definition example_tree :: node where
  "example_tree =
     Dir [(''res'', Dir [(''b.png'', File 3), (''a.png'', File 1)]),
          (''classes.dex'', File 9),
          (''AndroidManifest.xml'', File 2),
          (''assets'', Dir [(''x86'', Dir [(''libs.zstd'', File 0)])])]"

definition example_tree_relisted :: node where
  "example_tree_relisted =
     Dir [(''AndroidManifest.xml'', File 2),
          (''assets'', Dir [(''x86'', Dir [(''libs.zstd'', File 0)])]),
          (''res'', Dir [(''a.png'', File 1), (''b.png'', File 3)]),
          (''classes.dex'', File 9)]"

text \<open>A decompressor that always succeeds and leaves a file of 100 bytes; two trees with a
  non-empty \<^verbatim>\<open>libs.xzs\<close>, one with a \<^verbatim>\<open>lib\<close> directory and one without.\<close>

definition example_shell :: "string \<Rightarrow> bool \<times> nat option" where
  "example_shell cmd = (True, Some 100)"

definition tree_with_lib :: node where
  "tree_with_lib =
     Dir [(''assets'', Dir [(''libs.xzs'', File 7), (''libs.zstd'', File 0)]),
          (''lib'', Dir [(''x86'', Dir [(''libfoo.so'', File 5)])])]"

definition tree_without_lib :: node where
  "tree_without_lib = Dir [(''assets'', Dir [(''libs.xzs'', File 7), (''libs.zstd'', File 0)])]"

section \<open>Properties of the dex utilities\<close>

subsection \<open>The pattern search\<close>

lemma first_some_SomeD: "first_some f xs = Some y \<Longrightarrow> \<exists>x \<in> set xs. f x = Some y"
  by (induction xs) (auto split: option.splits)

lemma first_some_neq_None: "x \<in> set xs \<Longrightarrow> f x \<noteq> None \<Longrightarrow> first_some f xs \<noteq> None"
  by (induction xs) (auto split: option.splits)

lemma first_some_None_iff: "first_some f xs = None \<longleftrightarrow> (\<forall>x \<in> set xs. f x = None)"
  by (induction xs) (auto split: option.splits)

lemma digits_at_SomeD:
  assumes "digits_at s = Some ds"
  shows "ds \<noteq> []" and "\<forall>c \<in> set ds. is_digit c" and "s = ds @ dropWhile is_digit s"
    and "dropWhile is_digit s = [] \<or> \<not> is_digit (hd (dropWhile is_digit s))"
proof -
  from assms have ds: "ds = takeWhile is_digit s" and ne: "takeWhile is_digit s \<noteq> []"
    by (auto simp: digits_at_def Let_def split: if_splits)
  show "ds \<noteq> []" using ds ne by simp
  show "\<forall>c \<in> set ds. is_digit c" using ds by (auto dest: set_takeWhileD)
  show "s = ds @ dropWhile is_digit s" using ds by simp
  show "dropWhile is_digit s = [] \<or> \<not> is_digit (hd (dropWhile is_digit s))"
    using hd_dropWhile [of is_digit s] by blast
qed

lemma digits_at_digit: "is_digit d \<Longrightarrow> digits_at (d # post) \<noteq> None"
  by (simp add: digits_at_def)

lemma number_in_Cons: "number_in s ds \<Longrightarrow> number_in (c # s) ds"
  unfolding number_in_def
  apply (elim exE conjE)
  subgoal for pre post
    by (rule exI [of _ "c # pre"], rule exI [of _ post]) (auto simp: suffix_Cons)
  done

lemma match_classes_number: "match_classes s = Some ds \<Longrightarrow> number_in s ds"
proof -
  assume m: "match_classes s = Some ds"
  then have p: "prefix ''classes'' s" and d: "digits_at (drop 7 s) = Some ds"
    by (auto simp: match_classes_def split: if_splits)
  from p have s: "s = ''classes'' @ drop 7 s" by (auto simp: prefix_def)
  from digits_at_SomeD [OF d] s show ?thesis
    unfolding number_in_def
    by (intro exI [of _ "''classes''"] exI [of _ "dropWhile is_digit (drop 7 s)"]) auto
qed

lemma match_hyphen_number: "match_hyphen s = Some ds \<Longrightarrow> number_in s ds"
proof -
  let ?f = "\<lambda>k. if k < length s \<and> s ! k = CHR ''-'' then digits_at (drop (Suc k) s) else None"
  assume m: "match_hyphen s = Some ds"
  then have "\<exists>k \<in> set (rev [0..<Suc (length (takeWhile (\<lambda>c. c \<noteq> CHR 0x0A) s))]). ?f k = Some ds"
    unfolding match_hyphen_def Let_def by (rule first_some_SomeD)
  then obtain k where fk: "?f k = Some ds" by blast
  then have k: "k < length s" "s ! k = CHR ''-''" "digits_at (drop (Suc k) s) = Some ds"
    by (simp_all split: if_splits)
  have s: "s = (take k s @ ''-'') @ drop (Suc k) s"
    using id_take_nth_drop [of k s] k(1,2) by simp
  have "s = (take k s @ ''-'') @ ds @ dropWhile is_digit (drop (Suc k) s)"
    using s digits_at_SomeD(3) [OF k(3)] by simp
  with digits_at_SomeD [OF k(3)] show ?thesis
    unfolding number_in_def
    by (intro exI [of _ "take k s @ ''-''"] exI [of _ "dropWhile is_digit (drop (Suc k) s)"]) auto
qed

lemma match_at_number: "match_at s = Some ds \<Longrightarrow> number_in s ds"
  by (auto simp: match_at_def split: option.splits dest: match_classes_number match_hyphen_number)

lemma re_search_number: "re_search s = Some ds \<Longrightarrow> number_in s ds"
  by (induction s) (auto split: option.splits dest: match_at_number number_in_Cons)

lemma match_at_classes: "is_digit d \<Longrightarrow> match_at (''classes'' @ d # post) \<noteq> None"
  by (simp add: match_at_def match_classes_def digits_at_def)

lemma match_at_hyphen:
  assumes "is_digit d" shows "match_at (''-'' @ d # post) \<noteq> None"
proof -
  let ?s = "''-'' @ d # post"
  let ?f = "\<lambda>k. if k < length ?s \<and> ?s ! k = CHR ''-'' then digits_at (drop (Suc k) ?s) else None"
  let ?ks = "rev [0..<Suc (length (takeWhile (\<lambda>c. c \<noteq> CHR 0x0A) ?s))]"
  have "0 \<in> set ?ks" by simp
  moreover have "?f 0 \<noteq> None" using assms by (simp add: digits_at_def)
  ultimately have "first_some ?f ?ks \<noteq> None" by (rule first_some_neq_None)
  then have "match_hyphen ?s \<noteq> None" unfolding match_hyphen_def Let_def .
  then show ?thesis by (auto simp: match_at_def split: option.splits)
qed

lemma re_search_append: "match_at t \<noteq> None \<Longrightarrow> re_search (pre @ t) \<noteq> None"
proof (induction pre)
  case Nil
  then show ?case by (cases t) (auto split: option.splits)
next
  case (Cons c pre)
  then show ?case by (auto split: option.splits)
qed

lemma re_search_None_iff:
  "re_search s = None \<longleftrightarrow>
     \<not> (\<exists>pre d post. s = pre @ ''classes'' @ d # post \<and> is_digit d) \<and>
     \<not> (\<exists>pre d post. s = pre @ ''-'' @ d # post \<and> is_digit d)"
proof
  assume n: "re_search s = None"
  show "\<not> (\<exists>pre d post. s = pre @ ''classes'' @ d # post \<and> is_digit d) \<and>
     \<not> (\<exists>pre d post. s = pre @ ''-'' @ d # post \<and> is_digit d)"
    using n re_search_append [OF match_at_classes] re_search_append [OF match_at_hyphen]
    by metis
next
  assume a: "\<not> (\<exists>pre d post. s = pre @ ''classes'' @ d # post \<and> is_digit d) \<and>
     \<not> (\<exists>pre d post. s = pre @ ''-'' @ d # post \<and> is_digit d)"
  show "re_search s = None"
  proof (rule ccontr)
    assume "re_search s \<noteq> None"
    then obtain ds where "re_search s = Some ds" by auto
    then have "number_in s ds" by (rule re_search_number)
    then obtain pre post where s: "s = pre @ ds @ post" and ne: "ds \<noteq> []"
      and dg: "\<forall>c \<in> set ds. is_digit c" and sf: "suffix ''classes'' pre \<or> suffix ''-'' pre"
      unfolding number_in_def by blast
    from ne obtain d ds' where ds: "ds = d # ds'" by (cases ds) auto
    with dg have d: "is_digit d" by simp
    from sf show False
    proof
      assume "suffix ''classes'' pre"
      then obtain p where "pre = p @ ''classes''" by (auto simp: suffix_def)
      with s ds have "s = p @ ''classes'' @ d # (ds' @ post)" by simp
      with d a show False by blast
    next
      assume "suffix ''-'' pre"
      then obtain p where "pre = p @ ''-''" by (auto simp: suffix_def)
      with s ds have "s = p @ ''-'' @ d # (ds' @ post)" by simp
      with d a show False by blast
    qed
  qed
qed

lemma digit_follows_iff:
  "digit_follows w s \<longleftrightarrow> (\<exists>pre d post. s = pre @ w @ d # post \<and> is_digit d)"
proof (induction s)
  case Nil
  then show ?case by simp
next
  case (Cons c cs)
  show ?case
  proof
    assume "digit_follows w (c # cs)"
    then consider (here) "prefix w (c # cs)" "(case drop (length w) (c # cs) of [] \<Rightarrow> False | d # _ \<Rightarrow> is_digit d)"
      | (later) "digit_follows w cs" by auto
    then show "\<exists>pre d post. c # cs = pre @ w @ d # post \<and> is_digit d"
    proof cases
      case here
      then obtain r where r: "c # cs = w @ r" by (auto simp: prefix_def)
      with here(2) obtain d post where "r = d # post" "is_digit d"
        by (auto split: list.splits)
      with r show ?thesis by (intro exI [of _ "[]"]) auto
    next
      case later
      with Cons.IH obtain pre d post where "cs = pre @ w @ d # post" "is_digit d" by blast
      then show ?thesis by (intro exI [of _ "c # pre"]) auto
    qed
  next
    assume "\<exists>pre d post. c # cs = pre @ w @ d # post \<and> is_digit d"
    then obtain pre d post where e: "c # cs = pre @ w @ d # post" and d: "is_digit d" by blast
    show "digit_follows w (c # cs)"
    proof (cases pre)
      case Nil
      with e have "prefix w (c # cs)" and "drop (length w) (c # cs) = d # post"
        by simp_all
      with d show ?thesis by simp
    next
      case (Cons a pre')
      with e have "cs = pre' @ w @ d # post" by simp
      with d Cons.IH show ?thesis by auto
    qed
  qed
qed

subsection \<open>Sorting by key\<close>

lemma keys_of_Inr: "keys_of f xs = Inr ks \<Longrightarrow> map f xs = map Inr ks"
  by (induction xs arbitrary: ks) (auto split: sum.splits)

lemma keys_of_Inl: "keys_of f xs = Inl e \<Longrightarrow> \<exists>x \<in> set xs. f x = Inl e"
  by (induction xs) (auto split: sum.splits)

lemma keys_of_total: "\<forall>x \<in> set xs. \<exists>k. f x = Inr k \<Longrightarrow> \<exists>ks. keys_of f xs = Inr ks"
  by (induction xs) (auto split: sum.splits)

lemma keys_of_fails: "x \<in> set xs \<Longrightarrow> f x = Inl e \<Longrightarrow> \<exists>e'. keys_of f xs = Inl e'"
  by (induction xs) (auto split: sum.splits)

lemma zip_keys:
  assumes "map f xs = map Inr ks" and "(k, x) \<in> set (zip ks xs)"
  shows "f x = Inr k"
proof -
  from assms(2) obtain i where i: "i < length ks" "i < length xs" "ks ! i = k" "xs ! i = x"
    by (auto simp: in_set_zip)
  have "f (xs ! i) = map f xs ! i" using i(2) by simp
  also have "\<dots> = Inr (ks ! i)" using assms(1) i(1) by simp
  finally show ?thesis using i by simp
qed

lemma sort_by_key_Inr:
  assumes "sort_by_key f xs = Inr ys"
  shows "mset ys = mset xs"
    and "\<exists>ks. map f ys = map Inr ks \<and> sorted ks"
    and "filter (\<lambda>y. f y = Inr k) ys = filter (\<lambda>y. f y = Inr k) xs"
proof -
  from assms obtain ks where ks: "keys_of f xs = Inr ks"
    and ys: "ys = map snd (sort_key fst (zip ks xs))"
    by (auto simp: sort_by_key_def split: sum.splits)
  have m: "map f xs = map Inr ks" using ks by (rule keys_of_Inr)
  then have len: "length ks = length xs" by (metis length_map)
  let ?zs = "zip ks xs"
  let ?zs' = "sort_key fst ?zs"
  have key: "f (snd z) = Inr (fst z)" if "z \<in> set ?zs" for z
    using zip_keys [OF m, of "fst z" "snd z"] that by simp
  have key': "f (snd z) = Inr (fst z)" if "z \<in> set ?zs'" for z
    using key that by simp
  have "mset ys = image_mset snd (mset ?zs')" by (simp add: ys)
  also have "\<dots> = image_mset snd (mset ?zs)" by simp
  also have "\<dots> = mset (map snd ?zs)" by simp
  also have "\<dots> = mset xs" using len by simp
  finally show "mset ys = mset xs" .
  have "map f ys = map Inr (map fst ?zs')"
    unfolding ys using key' by simp
  moreover have "sorted (map fst ?zs')" by (rule sorted_sort_key)
  ultimately show "\<exists>ks. map f ys = map Inr ks \<and> sorted ks" by blast
  have "filter (\<lambda>y. f y = Inr k) ys = map snd (filter (\<lambda>z. f (snd z) = Inr k) ?zs')"
    by (simp add: ys filter_map comp_def)
  also have "filter (\<lambda>z. f (snd z) = Inr k) ?zs' = filter (\<lambda>z. fst z = k) ?zs'"
    by (rule filter_cong) (auto simp: key)
  also have "\<dots> = filter (\<lambda>z. fst z = k) ?zs" by (rule sort_key_stable)
  also have "\<dots> = filter (\<lambda>z. f (snd z) = Inr k) ?zs"
    by (rule filter_cong) (auto simp: key)
  also have "map snd \<dots> = filter (\<lambda>y. f y = Inr k) (map snd ?zs)"
    by (simp add: filter_map comp_def)
  also have "map snd ?zs = xs" using len by simp
  finally show "filter (\<lambda>y. f y = Inr k) ys = filter (\<lambda>y. f y = Inr k) xs" .
qed

lemma sort_by_key_total:
  "\<forall>x \<in> set xs. \<exists>k. f x = Inr k \<Longrightarrow> \<exists>ys. sort_by_key f xs = Inr ys"
  by (auto simp: sort_by_key_def dest!: keys_of_total)

lemma sort_by_key_Inl:
  "sort_by_key f xs = Inl e \<Longrightarrow> \<exists>x \<in> set xs. f x = Inl e"
  by (auto simp: sort_by_key_def split: sum.splits dest: keys_of_Inl)

lemma sort_by_key_fails:
  "x \<in> set xs \<Longrightarrow> f x = Inl e \<Longrightarrow> \<exists>e'. sort_by_key f xs = Inl e'"
  by (auto simp: sort_by_key_def split: sum.splits dest: keys_of_fails)

lemma extract_dex_number_Inr:
  "extract_dex_number p = Inr k \<Longrightarrow> \<exists>ds. number_in (basename p) ds \<and> k = int_of_digits ds"
  by (auto simp: extract_dex_number_def split: option.splits dest: re_search_number)

lemma extract_dex_number_Inl:
  "extract_dex_number p = Inl e \<Longrightarrow>
     re_search (basename p) = None \<and> e = Exception (''Bad secondary dex name: '' @ p)"
  by (auto simp: extract_dex_number_def split: option.splits)

lemma isfile_in_set: "isfile entries name \<Longrightarrow> \<exists>z. (name, File z) \<in> set entries"
  by (auto simp: isfile_def split: option.splits node.splits dest: map_of_SomeD)

subsection \<open>Which run of digits the pattern picks\<close>

text \<open>The search and the description by lines give the same digits, for every string.\<close>

lemma first_some_append:
  "first_some f (xs @ ys) = (case first_some f xs of Some y \<Rightarrow> Some y | None \<Rightarrow> first_some f ys)"
  by (induction xs) (auto split: option.splits)

lemma first_some_map: "first_some f (map g xs) = first_some (\<lambda>x. f (g x)) xs"
  by (induction xs) (auto split: option.splits)

lemma first_some_rev_upt_Suc:
  "first_some f (rev [0..<Suc n]) =
     (case first_some (\<lambda>k. f (Suc k)) (rev [0..<n]) of Some y \<Rightarrow> Some y | None \<Rightarrow> f 0)"
proof -
  have "[0..<Suc n] = 0 # map Suc [0..<n]"
    by (simp only: map_Suc_upt upt_conv_Cons [of 0 "Suc n"] zero_less_Suc if_True)
  then have "rev [0..<Suc n] = map Suc (rev [0..<n]) @ [0]"
    by (simp only: rev.simps rev_map)
  then show ?thesis
    by (simp only: first_some_append first_some_map first_some.simps)
       (simp split: option.splits)
qed

lemma not_digit_newline: "\<not> is_digit (CHR 0x0A)"
  by (simp add: is_digit_def)

lemma takeWhile_append_stop: "takeWhile P t = [] \<Longrightarrow> takeWhile P (y @ t) = takeWhile P y"
  by (induction y) auto

lemma digits_at_line:
  assumes "t = [] \<or> hd t = CHR 0x0A"
  shows "digits_at (y @ t) = digits_at y"
proof -
  have "takeWhile is_digit t = []"
    using assms not_digit_newline by (cases t) auto
  then show ?thesis by (simp add: digits_at_def takeWhile_append_stop)
qed

lemma prefix_line:
  assumes "t = [] \<or> hd t = CHR 0x0A" and "CHR 0x0A \<notin> set w"
  shows "prefix w (l @ t) \<longleftrightarrow> prefix w l"
proof (cases t)
  case Nil
  then show ?thesis by simp
next
  case (Cons a t')
  with assms(1) have t: "t = CHR 0x0A # t'" by simp
  show ?thesis
  proof
    assume "prefix w (l @ t)"
    then consider "prefix w l" | us where "w = l @ us" "prefix us t"
      unfolding prefix_append by blast
    then show "prefix w l"
    proof cases
      case 1
      then show ?thesis .
    next
      case 2
      show ?thesis
      proof (cases us)
        case Nil
        with 2(1) show ?thesis by simp
      next
        case (Cons u us')
        with 2(2) t have "u = CHR 0x0A" by simp
        with 2(1) Cons assms(2) show ?thesis by simp
      qed
    qed
  next
    assume "prefix w l"
    then show "prefix w (l @ t)" by (rule prefix_prefix)
  qed
qed

lemma match_classes_line:
  assumes "t = [] \<or> hd t = CHR 0x0A"
  shows "match_classes (l @ t) = match_classes l"
proof (cases "prefix ''classes'' l")
  case True
  then have "7 \<le> length l" by (auto simp: prefix_def)
  then have "drop 7 (l @ t) = drop 7 l @ t" by simp
  with True assms show ?thesis
    by (simp add: match_classes_def prefix_line digits_at_line del: drop_append)
next
  case False
  with assms show ?thesis by (simp add: match_classes_def prefix_line)
qed

lemma match_hyphen_line:
  assumes nl: "CHR 0x0A \<notin> set l" and t: "t = [] \<or> hd t = CHR 0x0A"
  shows "match_hyphen (l @ t) = last_after ''-'' l"
proof -
  let ?g = "\<lambda>s k. if k < length s \<and> s ! k = CHR ''-'' then digits_at (drop (Suc k) s) else None"
  have tw: "takeWhile (\<lambda>c. c \<noteq> CHR 0x0A) t = []" using t by (cases t) auto
  have "takeWhile (\<lambda>c. c \<noteq> CHR 0x0A) (l @ t) = l"
    using nl tw by (induction l) auto
  then have n: "length (takeWhile (\<lambda>c. c \<noteq> CHR 0x0A) (l @ t)) = length l" by (simp only:)
  have "first_some (?g (l @ t)) (rev [0..<Suc (length l)]) = last_after ''-'' l"
  proof (induction l)
    case Nil
    from t show ?case by (cases t) auto
  next
    case (Cons c cs)
    have step: "(\<lambda>k. ?g ((c # cs) @ t) (Suc k)) = ?g (cs @ t)" by (rule ext) simp
    have zero: "?g ((c # cs) @ t) 0 = (if c = CHR ''-'' then digits_at cs else None)"
      using t by (simp add: digits_at_line)
    have len: "Suc (length (c # cs)) = Suc (Suc (length cs))" by simp
    have "first_some (?g ((c # cs) @ t)) (rev [0..<Suc (Suc (length cs))])
          = (case first_some (\<lambda>k. ?g ((c # cs) @ t) (Suc k)) (rev [0..<Suc (length cs)]) of
               Some y \<Rightarrow> Some y | None \<Rightarrow> ?g ((c # cs) @ t) 0)"
      by (rule first_some_rev_upt_Suc)
    also have "\<dots> = (case last_after ''-'' cs of
               Some y \<Rightarrow> Some y | None \<Rightarrow> (if c = CHR ''-'' then digits_at cs else None))"
      unfolding step Cons.IH zero ..
    also have "\<dots> = last_after ''-'' (c # cs)"
      by (simp split: option.splits)
    finally show ?case unfolding len .
  qed
  then show ?thesis unfolding match_hyphen_def Let_def n .
qed

lemma match_at_line:
  assumes "CHR 0x0A \<notin> set l" and "t = [] \<or> hd t = CHR 0x0A"
  shows "match_at (l @ t) =
           (case match_classes l of Some ds \<Rightarrow> Some ds | None \<Rightarrow> last_after ''-'' l)"
  unfolding match_at_def match_classes_line [OF assms(2)] match_hyphen_line [OF assms] ..

lemma last_after_None_tl: "last_after w (c # cs) = None \<Longrightarrow> last_after w cs = None"
  by (simp split: option.splits)

lemma first_after_classes_Cons:
  "first_after ''classes'' (c # cs) =
     (case match_classes (c # cs) of Some ds \<Rightarrow> Some ds | None \<Rightarrow> first_after ''classes'' cs)"
proof -
  have len: "length ''classes'' = 7" by simp
  show ?thesis by (simp only: first_after.simps match_classes_def len)
qed

lemma re_search_line_no_hyphen:
  assumes "last_after ''-'' l = None" and "CHR 0x0A \<notin> set l" and "t = [] \<or> hd t = CHR 0x0A"
  shows "re_search (l @ t) =
           (case first_after ''classes'' l of Some ds \<Rightarrow> Some ds | None \<Rightarrow> re_search t)"
  using assms(1,2)
proof (induction l)
  case Nil
  then show ?case by simp
next
  case (Cons c cs)
  have nl: "CHR 0x0A \<notin> set (c # cs)" using Cons.prems(2) .
  have ih: "re_search (cs @ t) =
           (case first_after ''classes'' cs of Some ds \<Rightarrow> Some ds | None \<Rightarrow> re_search t)"
    using Cons.IH last_after_None_tl [OF Cons.prems(1)] Cons.prems(2) by simp
  have "re_search ((c # cs) @ t) =
          (case match_at ((c # cs) @ t) of Some ds \<Rightarrow> Some ds | None \<Rightarrow> re_search (cs @ t))"
    by simp
  also have "\<dots> = (case match_classes (c # cs) of Some ds \<Rightarrow> Some ds
                     | None \<Rightarrow> re_search (cs @ t))"
    unfolding match_at_line [OF nl assms(3)] Cons.prems(1) by (simp split: option.splits del: last_after.simps)
  also have "\<dots> = (case first_after ''classes'' (c # cs) of Some ds \<Rightarrow> Some ds
                     | None \<Rightarrow> re_search t)"
    unfolding ih first_after_classes_Cons by (simp split: option.splits del: first_after.simps)
  finally show ?case .
qed

lemma line_digits_Cons:
  "line_digits l =
     (case match_classes l of Some ds \<Rightarrow> Some ds
      | None \<Rightarrow> (case last_after ''-'' l of Some ds \<Rightarrow> Some ds
                 | None \<Rightarrow> first_after ''classes'' l))"
  unfolding line_digits_def match_classes_def ..

lemma re_search_line:
  assumes nl: "CHR 0x0A \<notin> set l" and t: "t = [] \<or> hd t = CHR 0x0A"
  shows "re_search (l @ t) =
           (case line_digits l of Some ds \<Rightarrow> Some ds | None \<Rightarrow> re_search t)"
proof (cases l)
  case Nil
  then show ?thesis by (simp add: line_digits_def)
next
  case (Cons c cs)
  have ma: "match_at ((c # cs) @ t) =
           (case match_classes (c # cs) of Some ds \<Rightarrow> Some ds | None \<Rightarrow> last_after ''-'' (c # cs))"
    using match_at_line [OF nl t] unfolding Cons .
  show ?thesis
  proof (cases "match_at ((c # cs) @ t)")
    case (Some ds)
    then have "line_digits (c # cs) = Some ds"
      using ma unfolding line_digits_Cons [of "c # cs"]
      by (auto split: option.splits simp del: last_after.simps first_after.simps)
    with Some show ?thesis unfolding Cons by simp
  next
    case None
    with ma have mc: "match_classes (c # cs) = None" and la: "last_after ''-'' (c # cs) = None"
      by (auto split: option.splits)
    have nl': "CHR 0x0A \<notin> set cs" using nl Cons by simp
    have "re_search ((c # cs) @ t) = re_search (cs @ t)" using None by simp
    also have "\<dots> = (case first_after ''classes'' cs of Some ds \<Rightarrow> Some ds
                       | None \<Rightarrow> re_search t)"
      by (rule re_search_line_no_hyphen [OF last_after_None_tl [OF la] nl' t])
    also have "first_after ''classes'' cs = line_digits (c # cs)"
      unfolding line_digits_Cons [of "c # cs"] first_after_classes_Cons mc la by simp
    finally show ?thesis unfolding Cons .
  qed
qed

lemma re_search_newline: "re_search (CHR 0x0A # s) = re_search s"
  by (simp add: match_at_def match_classes_def match_hyphen_def)

lemma split_lines_first:
  "\<exists>x xs t. split_lines s = x # xs \<and> s = x @ t \<and> CHR 0x0A \<notin> set x \<and>
     (t = [] \<or> hd t = CHR 0x0A) \<and> re_search t = first_some line_digits xs"
proof (induction s)
  case Nil
  show ?case by (simp add: match_at_def match_classes_def match_hyphen_def)
next
  case (Cons c cs)
  from Cons.IH obtain x xs t where sl: "split_lines cs = x # xs" and cs: "cs = x @ t"
    and nl: "CHR 0x0A \<notin> set x" and t: "t = [] \<or> hd t = CHR 0x0A"
    and rs: "re_search t = first_some line_digits xs" by blast
  show ?case
  proof (cases "c = CHR 0x0A")
    case True
    have "re_search cs = first_some line_digits (split_lines cs)"
      unfolding sl using re_search_line [OF nl t] rs cs by (simp split: option.splits)
    then have "re_search (c # cs) = first_some line_digits (split_lines cs)"
      using True re_search_newline by simp
    with True show ?thesis by (intro exI [of _ "[]"] exI [of _ "split_lines cs"] exI [of _ "c # cs"]) simp
  next
    case False
    with sl cs nl t rs show ?thesis
      by (intro exI [of _ "c # x"] exI [of _ xs] exI [of _ t]) simp
  qed
qed

lemma re_search_dex_number_digits: "re_search s = dex_number_digits s"
proof -
  obtain x xs t where sl: "split_lines s = x # xs" and s: "s = x @ t"
    and nl: "CHR 0x0A \<notin> set x" and t: "t = [] \<or> hd t = CHR 0x0A"
    and rs: "re_search t = first_some line_digits xs"
    using split_lines_first by blast
  show ?thesis
    unfolding dex_number_digits_def sl using re_search_line [OF nl t] rs s
    by (simp split: option.splits)
qed

lemma extract_dex_number_digits:
  "extract_dex_number p =
     (case dex_number_digits (basename p) of
        None \<Rightarrow> Inl (Exception (''Bad secondary dex name: '' @ p))
      | Some ds \<Rightarrow> Inr (int_of_digits ds))"
  by (simp add: extract_dex_number_def re_search_dex_number_digits)

lemma extract_dex_number_examples:
  "extract_dex_number ''apk/classes12.dex'' = Inr 12"
  "extract_dex_number ''apk/secondary-3.dex'' = Inr 3"
  "extract_dex_number ''apk/foo-3-7.dex'' = Inr 7"
  "extract_dex_number ''apk/xclasses2-9.dex'' = Inr 9"
  "extract_dex_number ''apk/classes2-9.dex'' = Inr 2"
  "extract_dex_number ''apk/myclasses5.dex'' = Inr 5"
  by code_simp+

subsection \<open>What \<^verbatim>\<open>glob\<close> lists\<close>

lemma join_cases: "join a b = b \<or> (\<exists>a'. join a b = a' @ CHR ''/'' # b)"
proof (cases "prefix ''/'' b \<or> a = []")
  case True
  then show ?thesis by (auto simp: join_def)
next
  case False
  show ?thesis
  proof (cases "suffix ''/'' a")
    case True
    then obtain zs where "a = zs @ ''/''" by (auto simp: suffix_def)
    with False have "join a b = zs @ CHR ''/'' # b" by (simp add: join_def)
    then show ?thesis by blast
  next
    case nosep: False
    with False have "join a b = a @ CHR ''/'' # b" by (simp add: join_def)
    then show ?thesis by blast
  qed
qed

lemma join_star:
  "\<exists>pre. join directory ''*.dex'' = pre @ ''*.dex'' \<and> set pre \<subseteq> insert (CHR ''/'') (set directory)"
proof (cases "directory = [] \<or> suffix ''/'' directory")
  case True
  then have "join directory ''*.dex'' = directory @ ''*.dex''" by (simp add: join_def)
  then show ?thesis by (intro exI [of _ directory]) auto
next
  case False
  then have "join directory ''*.dex'' = (directory @ ''/'') @ ''*.dex''" by (simp add: join_def)
  then show ?thesis by (intro exI [of _ "directory @ ''/''"]) auto
qed

lemma set_split_head_join:
  "set (split_head (join directory ''*.dex'')) \<subseteq> insert (CHR ''/'') (set directory)"
proof -
  obtain pre where j: "join directory ''*.dex'' = pre @ ''*.dex''"
    and pre: "set pre \<subseteq> insert (CHR ''/'') (set directory)"
    using join_star by blast
  let ?head = "rev (dropWhile (\<lambda>c. c \<noteq> CHR ''/'') (rev (pre @ ''*.dex'')))"
  have "?head = rev (dropWhile (\<lambda>c. c \<noteq> CHR ''/'') (rev pre))" by simp
  then have h: "set ?head \<subseteq> set pre" by (auto dest: set_dropWhileD)
  have "set (split_head (pre @ ''*.dex'')) \<subseteq> set ?head"
    unfolding split_head_def Let_def
    by (simp only: split: if_splits) (auto dest: set_dropWhileD)
  with h pre show ?thesis unfolding j by blast
qed

lemma has_magic_split_head:
  "\<not> has_magic directory \<Longrightarrow> \<not> has_magic (split_head (join directory ''*.dex''))"
  using set_split_head_join [of directory] by (auto simp: has_magic_def)

lemma glob_dex_plain:
  "\<not> has_magic directory \<Longrightarrow>
     glob_dex iglob directory entries = glob1_dex (split_head (join directory ''*.dex'')) entries"
  using has_magic_split_head [of directory] by (simp add: glob_dex_def Let_def)

lemma suffix_join:
  assumes "CHR ''/'' \<notin> set w"
  shows "suffix w (join a b) \<longleftrightarrow> suffix w b"
proof
  assume "suffix w b"
  then show "suffix w (join a b)" using join_cases [of a b] by (auto simp: suffix_def)
next
  assume s: "suffix w (join a b)"
  from join_cases [of a b] show "suffix w b"
  proof
    assume "join a b = b"
    with s show ?thesis by simp
  next
    assume "\<exists>a'. join a b = a' @ CHR ''/'' # b"
    then obtain a' where j: "join a b = a' @ CHR ''/'' # b" by blast
    from s consider "suffix w (CHR ''/'' # b)" | xs where "w = xs @ CHR ''/'' # b"
      unfolding j suffix_append by blast
    then show ?thesis
    proof cases
      case 1
      then show ?thesis using assms by (auto simp: suffix_Cons)
    next
      case 2
      with assms show ?thesis by simp
    qed
  qed
qed

lemma basename_join:
  assumes b: "CHR ''/'' \<notin> set b"
  shows "basename (join a b) = b"
proof -
  have tw: "takeWhile (\<lambda>c. c \<noteq> CHR ''/'') (rev b @ CHR ''/'' # r) = rev b" for r
  proof -
    have "takeWhile (\<lambda>c. c \<noteq> CHR ''/'') (rev b @ CHR ''/'' # r)
          = rev b @ takeWhile (\<lambda>c. c \<noteq> CHR ''/'') (CHR ''/'' # r)"
      by (rule takeWhile_append2) (use b in auto)
    then show ?thesis by simp
  qed
  have tw0: "takeWhile (\<lambda>c. c \<noteq> CHR ''/'') (rev b) = rev b"
    using b by (intro takeWhile_eq_all_conv [THEN iffD2]) auto
  from join_cases [of a b] show ?thesis
  proof
    assume "join a b = b"
    then show ?thesis by (simp only: basename_def tw0 rev_rev_ident)
  next
    assume "\<exists>a'. join a b = a' @ CHR ''/'' # b"
    then obtain a' where j: "join a b = a' @ CHR ''/'' # b" by blast
    show ?thesis unfolding j basename_def using tw [of "rev a'"] by simp
  qed
qed

lemma secondaries_plain:
  assumes "\<not> has_magic directory"
  shows "secondaries iglob directory entries =
           map (join (split_head (join directory ''*.dex'')))
             (filter (\<lambda>name. \<not> ishidden name \<and> suffix ''.dex'' name \<and>
                              \<not> suffix ''classes.dex'' name) (map fst entries))"
proof -
  have w: "CHR ''/'' \<notin> set ''classes.dex''" by simp
  show ?thesis
    unfolding secondaries_def glob_dex_plain [OF assms] glob1_dex_def filter_map filter_filter
      comp_def suffix_join [OF w]
    by (simp only: conj_assoc)
qed

subsection \<open>\<^verbatim>\<open>dex_glob\<close> and \<^verbatim>\<open>extract_dex_number\<close>\<close>

lemma map_of_filter_keep:
  "P name \<Longrightarrow> map_of (filter (\<lambda>(n, t). P n) entries) name = map_of entries name"
  by (induction entries) auto

lemma glob1_dex_filter:
  "filter (\<lambda>d. \<not> suffix ''classes.dex'' d)
     (glob1_dex dirname
        (filter (\<lambda>(name, n). name = ''classes.dex'' \<or>
            \<not> suffix ''classes.dex'' (join dirname name)) entries))
   = filter (\<lambda>d. \<not> suffix ''classes.dex'' d) (glob1_dex dirname entries)"
  unfolding glob1_dex_def by (induction entries) auto

lemma secondaries_filter:
  "secondaries iglob directory
     (filter (\<lambda>(name, n). name = ''classes.dex'' \<or>
         \<not> suffix ''classes.dex'' (join (split_head (join directory ''*.dex'')) name)) entries)
   = secondaries iglob directory entries"
proof (cases "split_head (join directory ''*.dex'') \<noteq> [] \<and>
    split_head (join directory ''*.dex'') \<noteq> join directory ''*.dex'' \<and>
    has_magic (split_head (join directory ''*.dex''))")
  case True
  then show ?thesis unfolding secondaries_def glob_dex_def Let_def by simp
next
  case False
  then show ?thesis
    unfolding secondaries_def glob_dex_def Let_def by (simp only: if_False glob1_dex_filter)
qed

lemma numbered_extract:
  assumes "digit_follows ''classes'' (basename p) \<or> digit_follows ''-'' (basename p)"
  shows "\<exists>k. extract_dex_number p = Inr k"
proof -
  have "re_search (basename p) \<noteq> None"
    using assms unfolding re_search_None_iff digit_follows_iff by blast
  then show ?thesis by (auto simp: extract_dex_number_def)
qed

text \<open>
  Claim C3, as amended. \<^verbatim>\<open>dex_glob\<close> does not return the primary followed by the sorted
  remaining \<^verbatim>\<open>*.dex\<close> files for every directory that holds \<^verbatim>\<open>classes.dex\<close>: it raises when a
  secondary carries no number; it leaves out the hidden entries and every path ending in
  \<^verbatim>\<open>classes.dex\<close>, numbered or not; in a directory whose path has one of the characters
  \<^verbatim>\<open>*\<close>, \<^verbatim>\<open>?\<close>, \<^verbatim>\<open>[\<close> it lists the directories that path matches as a pattern; and the key is not
  the first run of digits after \<^verbatim>\<open>classes\<close> or a hyphen (\<^verbatim>\<open>foo-3-7.dex\<close> has 7,
  \<^verbatim>\<open>xclasses2-9.dex\<close> has 9). What holds: when the path of the directory has
  none of \<^verbatim>\<open>*\<close>, \<^verbatim>\<open>?\<close>, \<^verbatim>\<open>[\<close>, \<^verbatim>\<open>classes.dex\<close> is a file of the directory, and every entry (the
  name of an entry holds no separator) whose name is not hidden, ends in \<^verbatim>\<open>.dex\<close> and does not end in \<^verbatim>\<open>classes.dex\<close> has a digit right
  after \<^verbatim>\<open>classes\<close> or right after a hyphen, \<^verbatim>\<open>dex_glob\<close> returns the primary followed by
  exactly the paths of those entries, in ascending order of \<^verbatim>\<open>extract_dex_number\<close>. The key
  of any path is taken from the first line of its base name that has one, and is there
  the number written by the digits right after a leading \<^verbatim>\<open>classes\<close>, else right after the
  last hyphen that a digit follows, else right after the first \<^verbatim>\<open>classes\<close> that a digit
  follows. For the file names \<^verbatim>\<open>classes.dex, classes2.dex, classes10.dex, foo-3.dex\<close> the
  result is \<^verbatim>\<open>classes.dex, classes2.dex, foo-3.dex, classes10.dex\<close>.
\<close>

theorem dex_glob_primary_then_sorted:
  assumes "isfile entries ''classes.dex''"
    and "\<not> has_magic directory"
    and "\<forall>name \<in> set (map fst entries). CHR ''/'' \<notin> set name"
    and "\<forall>name \<in> set (map fst entries).
           \<not> ishidden name \<and> suffix ''.dex'' name \<and> \<not> suffix ''classes.dex'' name \<longrightarrow>
           digit_follows ''classes'' name \<or> digit_follows ''-'' name"
  shows "(\<exists>secs ks.
            dex_glob iglob directory entries = Inr (join directory ''classes.dex'' # secs) \<and>
            mset secs =
              mset (map (join (split_head (join directory ''*.dex'')))
                      (filter (\<lambda>name. \<not> ishidden name \<and> suffix ''.dex'' name \<and>
                                       \<not> suffix ''classes.dex'' name) (map fst entries))) \<and>
            map extract_dex_number secs = map Inr ks \<and> sorted ks) \<and>
         (\<forall>p. extract_dex_number p =
                (case dex_number_digits (basename p) of
                   None \<Rightarrow> Inl (Exception (''Bad secondary dex name: '' @ p))
                 | Some ds \<Rightarrow> Inr (int_of_digits ds))) \<and>
         dex_glob iglob ''apk''
           [(''classes.dex'', File 1), (''classes2.dex'', File 1),
            (''classes10.dex'', File 1), (''foo-3.dex'', File 1)]
         = Inr [''apk/classes.dex'', ''apk/classes2.dex'', ''apk/foo-3.dex'',
                ''apk/classes10.dex'']"
proof (intro conjI allI)
  let ?dirname = "split_head (join directory ''*.dex'')"
  let ?names = "filter (\<lambda>name. \<not> ishidden name \<and> suffix ''.dex'' name \<and>
                                 \<not> suffix ''classes.dex'' name) (map fst entries)"
  have sp: "secondaries iglob directory entries = map (join ?dirname) ?names"
    by (rule secondaries_plain [OF assms(2)])
  have "\<forall>d \<in> set (secondaries iglob directory entries). \<exists>k. extract_dex_number d = Inr k"
  proof
    fix d assume "d \<in> set (secondaries iglob directory entries)"
    then obtain name where d: "d = join ?dirname name" and n: "name \<in> set ?names"
      unfolding sp by auto
    from n assms(3) have "basename d = name" unfolding d by (intro basename_join) auto
    moreover from n assms(4) have "digit_follows ''classes'' name \<or> digit_follows ''-'' name"
      by auto
    ultimately show "\<exists>k. extract_dex_number d = Inr k" by (intro numbered_extract) simp
  qed
  then obtain secs
    where secs: "sort_by_key extract_dex_number (secondaries iglob directory entries) = Inr secs"
    using sort_by_key_total by blast
  have res: "dex_glob iglob directory entries = Inr (join directory ''classes.dex'' # secs)"
    using assms(1) secs by (simp add: dex_glob_def)
  from sort_by_key_Inr(2) [OF secs] obtain ks
    where ks: "map extract_dex_number secs = map Inr ks" "sorted ks" by blast
  have ms: "mset secs = mset (map (join ?dirname) ?names)"
    using sort_by_key_Inr(1) [OF secs] unfolding sp .
  show "\<exists>secs ks.
            dex_glob iglob directory entries = Inr (join directory ''classes.dex'' # secs) \<and>
            mset secs = mset (map (join ?dirname) ?names) \<and>
            map extract_dex_number secs = map Inr ks \<and> sorted ks"
    using res ms ks by blast
next
  fix p
  show "extract_dex_number p =
          (case dex_number_digits (basename p) of
             None \<Rightarrow> Inl (Exception (''Bad secondary dex name: '' @ p))
           | Some ds \<Rightarrow> Inr (int_of_digits ds))"
    by (rule extract_dex_number_digits)
next
  have m: "\<not> has_magic ''apk''" by code_simp
  have s: "split_head (join ''apk'' ''*.dex'') = ''apk''" by code_simp
  show "dex_glob iglob ''apk''
           [(''classes.dex'', File 1), (''classes2.dex'', File 1),
            (''classes10.dex'', File 1), (''foo-3.dex'', File 1)]
         = Inr [''apk/classes.dex'', ''apk/classes2.dex'', ''apk/foo-3.dex'',
                ''apk/classes10.dex'']"
    unfolding dex_glob_def secondaries_def glob_dex_plain [OF m] s by code_simp
qed

text \<open>
  Claim C6. For a directory that has no regular file named \<^verbatim>\<open>classes.dex\<close>, \<^verbatim>\<open>dex_glob\<close>
  raises the exception \<^verbatim>\<open>No primary dex found\<close>; it returns no sequence, whatever else
  the directory holds.
\<close>

theorem dex_glob_no_primary:
  assumes "\<forall>z. (''classes.dex'', File z) \<notin> set entries"
  shows "dex_glob iglob directory entries = Inl (Exception ''No primary dex found'')"
proof -
  have "\<not> isfile entries ''classes.dex''" using assms isfile_in_set by blast
  then show ?thesis by (simp add: dex_glob_def)
qed

text \<open>
  Claim C7, as amended. When the base name of a path has no digit right after \<^verbatim>\<open>classes\<close>
  and no digit right after a hyphen, \<^verbatim>\<open>extract_dex_number\<close> raises
  \<^verbatim>\<open>Bad secondary dex name\<close> with the path appended. \<^verbatim>\<open>dex_glob\<close> does not fail on every
  directory that holds a \<^verbatim>\<open>*.dex\<close> file with such a name: it never looks at a hidden entry, at
  a path ending in \<^verbatim>\<open>classes.dex\<close>, or, when the path of the directory has one of the
  characters \<^verbatim>\<open>*\<close>, \<^verbatim>\<open>?\<close>, \<^verbatim>\<open>[\<close>, at the directory itself. What holds: \<^verbatim>\<open>dex_glob\<close> raises whenever
  such a path is among the secondaries it sorts, and that is the case for every entry of
  a directory whose path has none of \<^verbatim>\<open>*\<close>, \<^verbatim>\<open>?\<close>, \<^verbatim>\<open>[\<close>, when the name of the entry is not hidden,
  ends in \<^verbatim>\<open>.dex\<close> and does not end in \<^verbatim>\<open>classes.dex\<close>. The exception is
  \<^verbatim>\<open>No primary dex found\<close> when the primary is missing, otherwise \<^verbatim>\<open>Bad secondary dex name\<close>
  for one of the secondaries.
\<close>

theorem extract_dex_number_bad_name:
  assumes "\<not> (\<exists>pre c post. basename p = pre @ ''classes'' @ c # post \<and> is_digit c)"
    and "\<not> (\<exists>pre c post. basename p = pre @ ''-'' @ c # post \<and> is_digit c)"
  shows "extract_dex_number p = Inl (Exception (''Bad secondary dex name: '' @ p)) \<and>
         (p \<in> set (secondaries iglob directory entries) \<longrightarrow>
            dex_glob iglob directory entries = Inl (Exception ''No primary dex found'') \<or>
            (\<exists>d \<in> set (secondaries iglob directory entries).
               dex_glob iglob directory entries
                 = Inl (Exception (''Bad secondary dex name: '' @ d)))) \<and>
         (\<not> has_magic directory \<and> name \<in> set (map fst entries) \<and> \<not> ishidden name \<and>
          suffix ''.dex'' name \<and> \<not> suffix ''classes.dex'' name \<and>
          p = join (split_head (join directory ''*.dex'')) name \<longrightarrow>
            dex_glob iglob directory entries = Inl (Exception ''No primary dex found'') \<or>
            (\<exists>d. dex_glob iglob directory entries
                   = Inl (Exception (''Bad secondary dex name: '' @ d))))"
proof -
  have n: "re_search (basename p) = None"
    using assms unfolding re_search_None_iff by blast
  then have bad: "extract_dex_number p = Inl (Exception (''Bad secondary dex name: '' @ p))"
    by (simp add: extract_dex_number_def)
  have fails: "dex_glob iglob directory entries = Inl (Exception ''No primary dex found'') \<or>
        (\<exists>d \<in> set (secondaries iglob directory entries).
           dex_glob iglob directory entries = Inl (Exception (''Bad secondary dex name: '' @ d)))"
    if p: "p \<in> set (secondaries iglob directory entries)"
  proof (cases "isfile entries ''classes.dex''")
    case False
    then show ?thesis by (simp add: dex_glob_def)
  next
    case True
    from sort_by_key_fails [where f = extract_dex_number, OF p bad] obtain e
      where e: "sort_by_key extract_dex_number (secondaries iglob directory entries) = Inl e"
      by blast
    then obtain d where d: "d \<in> set (secondaries iglob directory entries)"
      "extract_dex_number d = Inl e"
      using sort_by_key_Inl by blast
    then have "e = Exception (''Bad secondary dex name: '' @ d)"
      using extract_dex_number_Inl by blast
    with True e d(1) show ?thesis by (auto simp: dex_glob_def)
  qed
  have listed: "p \<in> set (secondaries iglob directory entries)"
    if "\<not> has_magic directory" "name \<in> set (map fst entries)" "\<not> ishidden name"
      "suffix ''.dex'' name" "\<not> suffix ''classes.dex'' name"
      "p = join (split_head (join directory ''*.dex'')) name"
    unfolding secondaries_plain [OF that(1)] using that(2-6) by simp
  show ?thesis
  proof (intro conjI impI)
    show "extract_dex_number p = Inl (Exception (''Bad secondary dex name: '' @ p))" by (rule bad)
  next
    assume "p \<in> set (secondaries iglob directory entries)"
    then show "dex_glob iglob directory entries = Inl (Exception ''No primary dex found'') \<or>
        (\<exists>d \<in> set (secondaries iglob directory entries).
           dex_glob iglob directory entries = Inl (Exception (''Bad secondary dex name: '' @ d)))"
      by (rule fails)
  next
    assume "\<not> has_magic directory \<and> name \<in> set (map fst entries) \<and> \<not> ishidden name \<and>
          suffix ''.dex'' name \<and> \<not> suffix ''classes.dex'' name \<and>
          p = join (split_head (join directory ''*.dex'')) name"
    then have "p \<in> set (secondaries iglob directory entries)" using listed by blast
    from fails [OF this]
    show "dex_glob iglob directory entries = Inl (Exception ''No primary dex found'') \<or>
            (\<exists>d. dex_glob iglob directory entries
                   = Inl (Exception (''Bad secondary dex name: '' @ d)))"
      by blast
  qed
qed

text \<open>
  Claim C9. A path that ends in \<^verbatim>\<open>classes.dex\<close> and is not the primary never occurs in a
  sequence \<^verbatim>\<open>dex_glob\<close> returns, and such entries do not change what \<^verbatim>\<open>dex_glob\<close> does:
  its result (a sequence or an exception) is the one for the directory without them.
\<close>

theorem dex_glob_omits_classes_suffix:
  "(suffix ''classes.dex'' p \<and> p \<noteq> join directory ''classes.dex'' \<longrightarrow>
      (\<forall>ds. dex_glob iglob directory entries = Inr ds \<longrightarrow> p \<notin> set ds)) \<and>
   dex_glob iglob directory entries =
     dex_glob iglob directory
       (filter (\<lambda>(name, n). name = ''classes.dex'' \<or>
           \<not> suffix ''classes.dex'' (join (split_head (join directory ''*.dex'')) name)) entries)"
proof (intro conjI impI allI)
  fix ds
  assume p: "suffix ''classes.dex'' p \<and> p \<noteq> join directory ''classes.dex''"
    and r: "dex_glob iglob directory entries = Inr ds"
  from r obtain secs
    where secs: "sort_by_key extract_dex_number (secondaries iglob directory entries) = Inr secs"
    and ds: "ds = join directory ''classes.dex'' # secs"
    by (auto simp: dex_glob_def Let_def split: if_splits sum.splits)
  have "set secs = set (secondaries iglob directory entries)"
    using sort_by_key_Inr(1) [OF secs] by (metis set_mset_mset)
  then have "p \<notin> set secs" using p by (auto simp: secondaries_def)
  with p ds show "p \<notin> set ds" by simp
next
  show "dex_glob iglob directory entries =
     dex_glob iglob directory
       (filter (\<lambda>(name, n). name = ''classes.dex'' \<or>
           \<not> suffix ''classes.dex'' (join (split_head (join directory ''*.dex'')) name)) entries)"
    unfolding dex_glob_def isfile_def secondaries_filter
    by (simp add: map_of_filter_keep
        [of "\<lambda>name. name = ''classes.dex'' \<or>
           \<not> suffix ''classes.dex'' (join (split_head (join directory ''*.dex'')) name)"])
qed

theorem dex_glob_primary_then_sorted_witness:
  "isfile [(''classes10.dex'', File 1), (''foo-3.dex'', File 1), (''classes.dex'', File 1),
           (''classes2.dex'', File 1)] ''classes.dex'' \<and>
   \<not> has_magic ''apk'' \<and>
   (\<exists>secs ks.
      dex_glob (\<lambda>pattern. []) ''apk''
          [(''classes10.dex'', File 1), (''foo-3.dex'', File 1),
           (''classes.dex'', File 1), (''classes2.dex'', File 1)]
        = Inr (''apk/classes.dex'' # secs) \<and>
      mset secs = mset [''apk/classes10.dex'', ''apk/foo-3.dex'', ''apk/classes2.dex''] \<and>
      map extract_dex_number secs = map Inr ks \<and> sorted ks) \<and>
   extract_dex_number ''apk/foo-3.dex'' = Inr 3"
proof -
  let ?es = "[(''classes10.dex'', File 1), (''foo-3.dex'', File 1), (''classes.dex'', File 1),
           (''classes2.dex'', File 1)]"
  have f: "isfile ?es ''classes.dex''" by code_simp
  have m: "\<not> has_magic ''apk''" by code_simp
  have sl: "\<forall>name \<in> set (map fst ?es). CHR ''/'' \<notin> set name" by simp
  have d: "digit_follows ''classes'' ''classes10.dex''" "digit_follows ''-'' ''foo-3.dex''"
     "digit_follows ''classes'' ''classes2.dex''"
    by code_simp+
  have c: "suffix ''classes.dex'' ''classes.dex''" by simp
  have h: "\<forall>name \<in> set (map fst ?es).
           \<not> ishidden name \<and> suffix ''.dex'' name \<and> \<not> suffix ''classes.dex'' name \<longrightarrow>
           digit_follows ''classes'' name \<or> digit_follows ''-'' name"
    using d c by simp
  have l: "map (join (split_head (join ''apk'' ''*.dex'')))
             (filter (\<lambda>name. \<not> ishidden name \<and> suffix ''.dex'' name \<and>
                              \<not> suffix ''classes.dex'' name) (map fst ?es))
           = [''apk/classes10.dex'', ''apk/foo-3.dex'', ''apk/classes2.dex'']"
    by code_simp
  have j: "join ''apk'' ''classes.dex'' = ''apk/classes.dex''" by code_simp
  have b: "basename ''apk/foo-3.dex'' = ''foo-3.dex''" by code_simp
  have k: "dex_number_digits ''foo-3.dex'' = Some ''3''" by code_simp
  have i: "int_of_digits ''3'' = 3" by code_simp
  from dex_glob_primary_then_sorted [OF f m sl h, of "\<lambda>pattern. []"]
  have "(\<exists>secs ks.
      dex_glob (\<lambda>pattern. []) ''apk'' ?es = Inr (''apk/classes.dex'' # secs) \<and>
      mset secs = mset [''apk/classes10.dex'', ''apk/foo-3.dex'', ''apk/classes2.dex''] \<and>
      map extract_dex_number secs = map Inr ks \<and> sorted ks)"
    and "extract_dex_number ''apk/foo-3.dex'' =
          (case dex_number_digits (basename ''apk/foo-3.dex'') of
             None \<Rightarrow> Inl (Exception (''Bad secondary dex name: '' @ ''apk/foo-3.dex''))
           | Some ds \<Rightarrow> Inr (int_of_digits ds))"
    unfolding l j by blast+
  then show ?thesis using f m unfolding b k by (simp add: i)
qed

theorem dex_glob_primary_then_sorted_counterexample:
  "isfile [(''classes.dex'', File 1), (''extra.dex'', File 1)] ''classes.dex'' \<and>
   dex_glob (\<lambda>pattern. []) ''apk'' [(''classes.dex'', File 1), (''extra.dex'', File 1)]
     = Inl (Exception ''Bad secondary dex name: apk/extra.dex'') \<and>
   extract_dex_number ''apk/x-1classes.dex'' = Inr 1 \<and>
   dex_glob (\<lambda>pattern. []) ''apk'' [(''classes.dex'', File 1), (''x-1classes.dex'', File 1)]
     = Inr [''apk/classes.dex''] \<and>
   extract_dex_number ''apk/.x-1.dex'' = Inr 1 \<and>
   dex_glob (\<lambda>pattern. []) ''apk'' [(''classes.dex'', File 1), (''.x-1.dex'', File 1)]
     = Inr [''apk/classes.dex''] \<and>
   extract_dex_number ''apk/foo-3-7.dex'' = Inr 7 \<and>
   dex_glob (\<lambda>pattern. []) ''apk''
       [(''classes.dex'', File 1), (''foo-3-7.dex'', File 1), (''classes5.dex'', File 1)]
     = Inr [''apk/classes.dex'', ''apk/classes5.dex'', ''apk/foo-3-7.dex''] \<and>
   extract_dex_number ''apk/xclasses2-9.dex'' = Inr 9 \<and>
   dex_glob (\<lambda>pattern. []) ''apk''
       [(''classes.dex'', File 1), (''xclasses2-9.dex'', File 1), (''classes5.dex'', File 1)]
     = Inr [''apk/classes.dex'', ''apk/classes5.dex'', ''apk/xclasses2-9.dex''] \<and>
   isfile [(''classes.dex'', File 1), (''classes2.dex'', File 1)] ''classes.dex'' \<and>
   dex_glob (\<lambda>pattern. []) ''ap[k]'' [(''classes.dex'', File 1), (''classes2.dex'', File 1)]
     = Inr [''ap[k]/classes.dex'']"
  by code_simp

theorem dex_glob_no_primary_witness:
  "dex_glob (\<lambda>pattern. []) ''apk'' [(''classes2.dex'', File 1)]
     = Inl (Exception ''No primary dex found'')"
  using dex_glob_no_primary [of "[(''classes2.dex'', File 1)]" "\<lambda>pattern. []" "''apk''"] by simp

theorem extract_dex_number_bad_name_witness:
  "extract_dex_number ''apk/extra.dex'' = Inl (Exception ''Bad secondary dex name: apk/extra.dex'') \<and>
   ''apk/extra.dex''
     \<in> set (secondaries (\<lambda>pattern. []) ''apk'' [(''classes.dex'', File 1), (''extra.dex'', File 1)]) \<and>
   \<not> has_magic ''apk'' \<and> \<not> ishidden ''extra.dex'' \<and> suffix ''.dex'' ''extra.dex'' \<and>
   \<not> suffix ''classes.dex'' ''extra.dex'' \<and>
   ''apk/extra.dex'' = join (split_head (join ''apk'' ''*.dex'')) ''extra.dex'' \<and>
   dex_glob (\<lambda>pattern. []) ''apk'' [(''classes.dex'', File 1), (''extra.dex'', File 1)]
     = Inl (Exception ''Bad secondary dex name: apk/extra.dex'')"
proof -
  let ?es = "[(''classes.dex'', File 1), (''extra.dex'', File 1)]"
  have b: "basename ''apk/extra.dex'' = ''extra.dex''" by code_simp
  have n: "\<not> digit_follows ''classes'' ''extra.dex''" "\<not> digit_follows ''-'' ''extra.dex''"
    by code_simp+
  have s: "secondaries (\<lambda>pattern. []) ''apk'' ?es = [''apk/extra.dex'']"
    by code_simp
  have g: "\<not> has_magic ''apk''" "\<not> ishidden ''extra.dex''" "suffix ''.dex'' ''extra.dex''"
    "\<not> suffix ''classes.dex'' ''extra.dex''"
    "''apk/extra.dex'' = join (split_head (join ''apk'' ''*.dex'')) ''extra.dex''"
    by code_simp+
  have np: "dex_glob (\<lambda>pattern. []) ''apk'' ?es
             = Inl (Exception ''Bad secondary dex name: apk/extra.dex'')"
    by code_simp
  from n have h1: "\<not> (\<exists>pre c post. basename ''apk/extra.dex'' = pre @ ''classes'' @ c # post \<and> is_digit c)"
    and h2: "\<not> (\<exists>pre c post. basename ''apk/extra.dex'' = pre @ ''-'' @ c # post \<and> is_digit c)"
    unfolding b digit_follows_iff by blast+
  show ?thesis
    using extract_dex_number_bad_name
      [OF h1 h2, of "\<lambda>pattern. []" "''apk''" ?es "''extra.dex''"] np g
    unfolding s by simp
qed

theorem extract_dex_number_bad_name_counterexample:
  "extract_dex_number ''apk/myclasses.dex''
     = Inl (Exception ''Bad secondary dex name: apk/myclasses.dex'') \<and>
   dex_glob (\<lambda>pattern. []) ''apk'' [(''classes.dex'', File 1), (''myclasses.dex'', File 1)]
     = Inr [''apk/classes.dex''] \<and>
   extract_dex_number ''apk/.extra.dex''
     = Inl (Exception ''Bad secondary dex name: apk/.extra.dex'') \<and>
   dex_glob (\<lambda>pattern. []) ''apk'' [(''classes.dex'', File 1), (''.extra.dex'', File 1)]
     = Inr [''apk/classes.dex''] \<and>
   extract_dex_number ''ap[k]/extra.dex''
     = Inl (Exception ''Bad secondary dex name: ap[k]/extra.dex'') \<and>
   dex_glob (\<lambda>pattern. []) ''ap[k]'' [(''classes.dex'', File 1), (''extra.dex'', File 1)]
     = Inr [''ap[k]/classes.dex'']"
  by code_simp

theorem dex_glob_omits_classes_suffix_witness:
  "suffix ''classes.dex'' ''apk/myclasses.dex'' \<and>
   ''apk/myclasses.dex'' \<noteq> join ''apk'' ''classes.dex'' \<and>
   dex_glob (\<lambda>pattern. []) ''apk''
       [(''classes.dex'', File 1), (''myclasses.dex'', File 1), (''classes2.dex'', File 1)]
     = Inr [''apk/classes.dex'', ''apk/classes2.dex''] \<and>
   ''apk/myclasses.dex'' \<notin> set [''apk/classes.dex'', ''apk/classes2.dex''] \<and>
   dex_glob (\<lambda>pattern. []) ''apk'' [(''classes.dex'', File 1), (''classes2.dex'', File 1)]
     = Inr [''apk/classes.dex'', ''apk/classes2.dex'']"
proof -
  let ?es = "[(''classes.dex'', File 1), (''myclasses.dex'', File 1), (''classes2.dex'', File 1)]"
  have a: "suffix ''classes.dex'' ''apk/myclasses.dex''" by code_simp
  have b: "''apk/myclasses.dex'' \<noteq> join ''apk'' ''classes.dex''" by code_simp
  have r: "dex_glob (\<lambda>pattern. []) ''apk'' ?es = Inr [''apk/classes.dex'', ''apk/classes2.dex'']"
    by code_simp
  have f: "filter (\<lambda>(name, n). name = ''classes.dex'' \<or>
           \<not> suffix ''classes.dex'' (join (split_head (join ''apk'' ''*.dex'')) name)) ?es
        = [(''classes.dex'', File 1), (''classes2.dex'', File 1)]" by code_simp
  show ?thesis
    using dex_glob_omits_classes_suffix [of "''apk/myclasses.dex''" "''apk''" "\<lambda>pattern. []" ?es] a b r
    unfolding f by simp
qed

section \<open>Properties of the context managers\<close>

subsection \<open>\<^verbatim>\<open>with_temp_cleanup\<close>\<close>

lemma rmtree_each_all:
  "distinct ds \<Longrightarrow> \<forall>d \<in> set ds. \<exists>es. fs d = Some (Dir es) \<Longrightarrow>
     rmtree_each ds fs = (None, \<lambda>d. if d \<in> set ds then None else fs d)"
proof (induction ds arbitrary: fs)
  case Nil
  then show ?case by simp
next
  case (Cons a ds)
  from Cons.prems obtain es where a: "fs a = Some (Dir es)" by auto
  have r: "rmtree a fs = Inr (fs(a := None))" using a by (simp add: rmtree_def)
  have "rmtree_each ds (fs(a := None)) =
          (None, \<lambda>d. if d \<in> set ds then None else (fs(a := None)) d)"
    using Cons.prems by (intro Cons.IH) auto
  then show ?case using r by (auto simp: fun_eq_iff)
qed

text \<open>
  Claim C5, as amended. When the wrapped function raises, \<^verbatim>\<open>with_temp_cleanup\<close> removes the
  registered temporary directories only if it was called with \<^verbatim>\<open>always_clean\<close> true: then,
  every registered directory being there, all of them are removed and the exception of the
  function propagates. With \<^verbatim>\<open>always_clean\<close> false, its default, nothing is removed: the
  exception propagates and the world is the one the function left.
\<close>

theorem with_temp_cleanup_on_failure:
  assumes "fn w = (Some e, w1)"
  shows "with_temp_cleanup fn False w = (Some e, w1) \<and>
         (distinct (temp_dirs w1) \<and> (\<forall>d \<in> set (temp_dirs w1). \<exists>es. tmp_fs w1 d = Some (Dir es)) \<longrightarrow>
            with_temp_cleanup fn True w =
              (Some e, w1\<lparr>tmp_fs := \<lambda>d. if d \<in> set (temp_dirs w1) then None else tmp_fs w1 d\<rparr>))"
proof (intro conjI impI)
  show "with_temp_cleanup fn False w = (Some e, w1)"
    using assms by (simp add: with_temp_cleanup_def)
next
  assume a: "distinct (temp_dirs w1) \<and> (\<forall>d \<in> set (temp_dirs w1). \<exists>es. tmp_fs w1 d = Some (Dir es))"
  then have "rmtree_each (temp_dirs w1) (tmp_fs w1) =
      (None, \<lambda>d. if d \<in> set (temp_dirs w1) then None else tmp_fs w1 d)"
    by (intro rmtree_each_all) auto
  then have "remove_temp_dirs w1 =
      (None, w1\<lparr>tmp_fs := \<lambda>d. if d \<in> set (temp_dirs w1) then None else tmp_fs w1 d\<rparr>)"
    by (simp add: remove_temp_dirs_def)
  then show "with_temp_cleanup fn True w =
              (Some e, w1\<lparr>tmp_fs := \<lambda>d. if d \<in> set (temp_dirs w1) then None else tmp_fs w1 d\<rparr>)"
    using assms by (simp add: with_temp_cleanup_def)
qed

lemma failing_run_empty:
  "failing_run empty_world =
     (Some (Exception ''boom''),
      \<lparr>temp_dirs = [''/tmp/tmp0.work''], tmp_fs = [''/tmp/tmp0.work'' \<mapsto> Dir []], trace = []\<rparr>)"
  by (simp add: failing_run_def empty_world_def make_temp_dir_def example_collaborators_def Let_def)

theorem with_temp_cleanup_on_failure_counterexample:
  "fst (failing_run empty_world) = Some (Exception ''boom'') \<and>
   temp_dirs (snd (failing_run empty_world)) = [''/tmp/tmp0.work''] \<and>
   fst (with_temp_cleanup failing_run False empty_world) = Some (Exception ''boom'') \<and>
   tmp_fs (snd (with_temp_cleanup failing_run False empty_world)) ''/tmp/tmp0.work'' = Some (Dir [])"
  by (simp add: with_temp_cleanup_def failing_run_empty)

theorem with_temp_cleanup_on_failure_witness:
  "with_temp_cleanup failing_run False empty_world =
     (Some (Exception ''boom''),
      \<lparr>temp_dirs = [''/tmp/tmp0.work''], tmp_fs = [''/tmp/tmp0.work'' \<mapsto> Dir []], trace = []\<rparr>) \<and>
   with_temp_cleanup failing_run True empty_world =
     (Some (Exception ''boom''),
      \<lparr>temp_dirs = [''/tmp/tmp0.work''], tmp_fs = Map.empty, trace = []\<rparr>)"
  using with_temp_cleanup_on_failure [where fn = failing_run and w = empty_world, OF failing_run_empty]
  by (auto simp: fun_eq_iff)

subsection \<open>\<^verbatim>\<open>UnpackManager\<close>\<close>

lemma module_repacks_append:
  "module_repacks (xs @ ys) = module_repacks xs @ module_repacks ys"
  by (induction xs rule: module_repacks.induct) auto

lemma module_unpacks_append:
  "module_unpacks (xs @ ys) = module_unpacks xs @ module_unpacks ys"
  by (induction xs rule: module_unpacks.induct) auto

lemma trace_log [simp]: "trace (log msg w) = trace w @ [Log msg]"
  by (simp add: log_def)

lemma ext_call_trace: "ext_call c e w = (r, w') \<Longrightarrow> trace w' = trace w @ [e]"
  by (auto simp: ext_call_def)

lemma repack_modules_trace:
  "repack_modules c self ms i w = (r, w') \<Longrightarrow>
     \<exists>new. trace w' = trace w @ new \<and>
       prefix (module_repacks new) (zip ms [i..<i + length ms]) \<and>
       (r = None \<longrightarrow> module_repacks new = zip ms [i..<i + length ms])"
proof (induction ms arbitrary: i w)
  case Nil
  then show ?case by auto
next
  case (Cons md rest)
  let ?w1 = "log (''repacking module: '' @ get_name md @ '' with id '' @ str_nat i) w"
  let ?ev = "ModuleRepackage md (extracted_apk_dir self) (dex_dir self) (have_locators self) i
               (fast_repackage self)"
  obtain x w2 where call: "ext_call c ?ev ?w1 = (x, w2)" by (cases "ext_call c ?ev ?w1")
  then have t2: "trace w2 = trace w @ [Log (''repacking module: '' @ get_name md @ '' with id '' @ str_nat i), ?ev]"
    by (auto dest: ext_call_trace)
  have upt: "[i..<i + length (md # rest)] = i # [Suc i..<Suc i + length rest]"
    using upt_conv_Cons [of i "Suc (i + length rest)"] by (simp del: upt_Suc)
  show ?case
  proof (cases x)
    case (Some e)
    with Cons.prems call have "r = Some e" "w' = w2" by (simp_all add: Let_def)
    with t2 show ?thesis unfolding upt
      by (intro exI [of _ "[Log (''repacking module: '' @ get_name md @ '' with id '' @ str_nat i), ?ev]"]) simp
  next
    case None
    with Cons.prems call have "repack_modules c self rest (Suc i) w2 = (r, w')"
      by (simp add: Let_def)
    from Cons.IH [OF this] obtain new where new: "trace w' = trace w2 @ new"
      "prefix (module_repacks new) (zip rest [Suc i..<Suc i + length rest])"
      "r = None \<longrightarrow> module_repacks new = zip rest [Suc i..<Suc i + length rest]" by blast
    show ?thesis unfolding upt
      using new t2
      by (intro exI [of _ "[Log (''repacking module: '' @ get_name md @ '' with id '' @ str_nat i), ?ev] @ new"])
         (simp add: module_repacks_append)
  qed
qed

lemma UnpackManager_exit_trace:
  assumes "UnpackManager_exit c self w = (r, w')"
  shows "\<exists>new. trace w' = trace w @ new \<and>
       prefix (module_repacks new)
         (zip (application_modules self) [1..<Suc (length (application_modules self))]) \<and>
       (r = None \<longrightarrow> module_repacks new =
          zip (application_modules self) [1..<Suc (length (application_modules self))])"
proof (cases "dex_mode self")
  case None
  with assms show ?thesis
    by (intro exI [of _ "[Log ''Repacking dex files'',
          Log (''Emit Locator Strings: '' @ str_bool (have_locators self))]"])
       (auto simp: UnpackManager_exit_def Let_def)
next
  case (Some mode)
  let ?w2 = "log (''Emit Locator Strings: '' @ str_bool (have_locators self))
               (log ''Repacking dex files'' w)"
  let ?ev = "DexRepackage mode (get_dex_file_path (input_apk self) (extracted_apk_dir self))
               (dex_dir self) (have_locators self) (fast_repackage self)"
  let ?pre = "[Log ''Repacking dex files'',
          Log (''Emit Locator Strings: '' @ str_bool (have_locators self)), ?ev]"
  obtain x w3 where call: "ext_call c ?ev ?w2 = (x, w3)" by (cases "ext_call c ?ev ?w2")
  then have t3: "trace w3 = trace w @ ?pre" by (auto dest: ext_call_trace)
  show ?thesis
  proof (cases x)
    case (Some e)
    with assms call \<open>dex_mode self = Some mode\<close> have "r = Some e" "w' = w3"
      by (simp_all add: UnpackManager_exit_def Let_def)
    with t3 show ?thesis by (intro exI [of _ ?pre]) simp
  next
    case None
    with assms call \<open>dex_mode self = Some mode\<close>
    have "repack_modules c self (application_modules self) 1 w3 = (r, w')"
      by (simp add: UnpackManager_exit_def Let_def)
    from repack_modules_trace [OF this] obtain new where new: "trace w' = trace w3 @ new"
      "prefix (module_repacks new) (zip (application_modules self) [1..<1 + length (application_modules self)])"
      "r = None \<longrightarrow> module_repacks new = zip (application_modules self) [1..<1 + length (application_modules self)]"
      by blast
    show ?thesis using new t3
      by (intro exI [of _ "?pre @ new"]) (simp add: module_repacks_append)
  qed
qed

lemma unpack_modules_trace:
  "unpack_modules c self dir ms sf w = (Inr sf', w') \<Longrightarrow>
     \<exists>new. trace w' = trace w @ new \<and> module_unpacks new = ms \<and>
       sf' = sf @ map (\<lambda>md. join dir (get_name md @ ''.json'')) ms"
proof (induction ms arbitrary: sf w)
  case Nil
  then show ?case by auto
next
  case (Cons md rest)
  let ?lg = "Log (''found module: '' @ get_name md @ '' '' @
                    (case get_canary_prefix md of Some p \<Rightarrow> p | None \<Rightarrow> ''(no canary prefix)''))"
  let ?w1 = "log (''found module: '' @ get_name md @ '' '' @
                    (case get_canary_prefix md of Some p \<Rightarrow> p | None \<Rightarrow> ''(no canary prefix)'')) w"
  let ?p = "join (dex_dir self) (get_name md)"
  let ?meta = "join dir (get_name md @ ''.json'')"
  obtain x2 w2 where c2: "ext_call c (Mkdir ?p) ?w1 = (x2, w2)" by (cases "ext_call c (Mkdir ?p) ?w1")
  obtain x3 w3 where c3: "ext_call c (ModuleUnpackage md (extracted_apk_dir self) ?p) w2 = (x3, w3)"
    by (cases "ext_call c (ModuleUnpackage md (extracted_apk_dir self) ?p) w2")
  obtain x4 w4 where c4: "ext_call c (ModuleWriteMetadata md ?p ?meta) w3 = (x4, w4)"
    by (cases "ext_call c (ModuleWriteMetadata md ?p ?meta) w3")
  from Cons.prems c2 have x2: "x2 = None" by (auto simp: Let_def split: option.splits)
  from Cons.prems c2 c3 x2 have x3: "x3 = None" by (auto simp: Let_def split: option.splits)
  from Cons.prems c2 c3 c4 x2 x3 have x4: "x4 = None" by (auto simp: Let_def split: option.splits)
  from Cons.prems c2 c3 c4 x2 x3 x4
  have rec: "unpack_modules c self dir rest (sf @ [?meta]) w4 = (Inr sf', w')"
    by (simp add: Let_def)
  have t4: "trace w4 = trace w @ [?lg, Mkdir ?p, ModuleUnpackage md (extracted_apk_dir self) ?p,
                ModuleWriteMetadata md ?p ?meta]"
    using ext_call_trace [OF c2] ext_call_trace [OF c3] ext_call_trace [OF c4] by simp
  from Cons.IH [OF rec] obtain new where new: "trace w' = trace w4 @ new"
    "module_unpacks new = rest"
    "sf' = (sf @ [?meta]) @ map (\<lambda>md. join dir (get_name md @ ''.json'')) rest" by blast
  show ?case using new t4
    by (intro exI [of _ "[?lg, Mkdir ?p, ModuleUnpackage md (extracted_apk_dir self) ?p,
                ModuleWriteMetadata md ?p ?meta] @ new"])
       (simp add: module_unpacks_append)
qed

lemma make_temp_dir_trace: "make_temp_dir c name debug w = (d, w') \<Longrightarrow> trace w' = trace w"
  by (auto simp: make_temp_dir_def Let_def split: if_splits)

lemma UnpackManager_enter_ok:
  assumes "UnpackManager_enter c self w = (Inr store_files, self', w')"
  shows "self' = self\<lparr>dex_mode := Some (detect_secondary_dex_mode c
                      (get_dex_file_path (input_apk self) (extracted_apk_dir self))),
                    application_modules := detect c (extracted_apk_dir self)\<rparr>"
    and "\<exists>new. trace w' = trace w @ new \<and> module_unpacks new = detect c (extracted_apk_dir self)"
proof -
  let ?path = "get_dex_file_path (input_apk self) (extracted_apk_dir self)"
  let ?mode = "detect_secondary_dex_mode c ?path"
  let ?w2 = "log ''Unpacking dex files'' (log (''Detected dex mode '' @ ?mode) w)"
  let ?ev = "DexUnpackage ?mode ?path (dex_dir self)"
  obtain x w3 where c3: "ext_call c ?ev ?w2 = (x, w3)" by (cases "ext_call c ?ev ?w2")
  let ?w4 = "log ''Detecting Application Modules'' w3"
  obtain dir w5 where mk: "make_temp_dir c ''.application_module_metadata'' (debug_mode self) ?w4 = (dir, w5)"
    by (cases "make_temp_dir c ''.application_module_metadata'' (debug_mode self) ?w4")
  let ?self2 = "self\<lparr>dex_mode := Some ?mode, application_modules := detect c (extracted_apk_dir self)\<rparr>"
  from assms c3 have x: "x = None"
    by (auto simp: UnpackManager_enter_def Let_def split: option.splits)
  from assms c3 x mk
  have um: "unpack_modules c ?self2 dir (detect c (extracted_apk_dir self)) [] w5 = (Inr store_files, w')"
    and s: "self' = ?self2"
    by (auto simp: UnpackManager_enter_def Let_def split: prod.splits)
  show "self' = ?self2" by (rule s)
  have t5: "trace w5 = trace w @ [Log (''Detected dex mode '' @ ?mode), Log ''Unpacking dex files'',
               ?ev, Log ''Detecting Application Modules'']"
    using ext_call_trace [OF c3] make_temp_dir_trace [OF mk] by simp
  from unpack_modules_trace [OF um] obtain new where new: "trace w' = trace w5 @ new"
    "module_unpacks new = detect c (extracted_apk_dir self)" by blast
  show "\<exists>new. trace w' = trace w @ new \<and> module_unpacks new = detect c (extracted_apk_dir self)"
    using new t5
    by (intro exI [of _ "[Log (''Detected dex mode '' @ ?mode), Log ''Unpacking dex files'',
               ?ev, Log ''Detecting Application Modules''] @ new"])
       (simp add: module_unpacks_append)
qed

text \<open>
  Claim C4. After an \<^verbatim>\<open>__enter__\<close> that returned, \<^verbatim>\<open>self.application_modules\<close> is the list
  that \<^verbatim>\<open>ApplicationModule.detect\<close> returned, and the modules were unpacked in that order.
  The \<^verbatim>\<open>__exit__\<close> that follows, in whatever state the world then is, calls \<^verbatim>\<open>repackage\<close>
  on those modules in the same order, the i-th with locator id i, counting from 1: the
  calls it makes are an initial part of that pairing, and all of it when \<^verbatim>\<open>__exit__\<close>
  returns without an exception. The names of the modules play no part.
\<close>

theorem UnpackManager_repacks_in_discovery_order:
  assumes "UnpackManager_enter c self w = (Inr store_files, self', w')"
    and "UnpackManager_exit c self' w'' = (r, w''')"
  shows "application_modules self' = detect c (extracted_apk_dir self) \<and>
         (\<exists>new. trace w' = trace w @ new \<and>
            module_unpacks new = detect c (extracted_apk_dir self)) \<and>
         (\<exists>new. trace w''' = trace w'' @ new \<and>
            prefix (module_repacks new)
              (zip (detect c (extracted_apk_dir self))
                   [1..<Suc (length (detect c (extracted_apk_dir self)))]) \<and>
            (r = None \<longrightarrow> module_repacks new =
               zip (detect c (extracted_apk_dir self))
                   [1..<Suc (length (detect c (extracted_apk_dir self)))]))"
proof -
  have am: "application_modules self' = detect c (extracted_apk_dir self)"
    using UnpackManager_enter_ok(1) [OF assms(1)] by simp
  show ?thesis
    using am UnpackManager_enter_ok(2) [OF assms(1)] UnpackManager_exit_trace [OF assms(2)]
    by simp
qed

theorem UnpackManager_repacks_in_discovery_order_witness:
  "fst (UnpackManager_enter example_collaborators example_manager empty_world)
     = Inr [''/tmp/tmp0.application_module_metadata/zeta.json'',
            ''/tmp/tmp0.application_module_metadata/alpha.json''] \<and>
   application_modules (fst (snd (UnpackManager_enter example_collaborators example_manager empty_world)))
     = [\<lparr>get_name = ''zeta'', get_canary_prefix = None\<rparr>,
        \<lparr>get_name = ''alpha'', get_canary_prefix = Some ''al''\<rparr>] \<and>
   fst (UnpackManager_exit example_collaborators
          (fst (snd (UnpackManager_enter example_collaborators example_manager empty_world)))
          empty_world) = None \<and>
   module_repacks (trace (snd (UnpackManager_exit example_collaborators
          (fst (snd (UnpackManager_enter example_collaborators example_manager empty_world)))
          empty_world)))
     = [(\<lparr>get_name = ''zeta'', get_canary_prefix = None\<rparr>, 1),
        (\<lparr>get_name = ''alpha'', get_canary_prefix = Some ''al''\<rparr>, 2)]"
proof -
  let ?en = "UnpackManager_enter example_collaborators example_manager empty_world"
  let ?ex = "UnpackManager_exit example_collaborators (fst (snd ?en)) empty_world"
  have e1: "fst ?en = Inr [''/tmp/tmp0.application_module_metadata/zeta.json'',
            ''/tmp/tmp0.application_module_metadata/alpha.json'']"
    by code_simp
  have e2: "?en = (Inr [''/tmp/tmp0.application_module_metadata/zeta.json'',
            ''/tmp/tmp0.application_module_metadata/alpha.json''], fst (snd ?en), snd (snd ?en))"
    using e1 by (metis prod.collapse)
  have x1: "fst ?ex = None" by code_simp
  have x2: "?ex = (None, snd ?ex)" using x1 by (metis prod.collapse)
  have d: "detect example_collaborators (extracted_apk_dir example_manager)
     = [\<lparr>get_name = ''zeta'', get_canary_prefix = None\<rparr>,
        \<lparr>get_name = ''alpha'', get_canary_prefix = Some ''al''\<rparr>]"
    by (simp add: example_collaborators_def)
  have t0: "trace empty_world = []" by (simp add: empty_world_def)
  have z: "zip [\<lparr>get_name = ''zeta'', get_canary_prefix = None\<rparr>,
        \<lparr>get_name = ''alpha'', get_canary_prefix = Some ''al''\<rparr>] [1..<Suc (Suc (Suc 0))]
     = [(\<lparr>get_name = ''zeta'', get_canary_prefix = None\<rparr>, 1),
        (\<lparr>get_name = ''alpha'', get_canary_prefix = Some ''al''\<rparr>, Suc (Suc 0))]"
    by (simp add: upt_conv_Cons)
  show ?thesis
    using UnpackManager_repacks_in_discovery_order [OF e2 x2] e1 x1
    unfolding d t0 by (auto simp: z numeral_2_eq_2)
qed

subsection \<open>\<^verbatim>\<open>ZipManager\<close>\<close>

lemma in_dirnames_iff:
  "distinct (map fst es) \<Longrightarrow>
     name \<in> set (dirnames_of es) \<longleftrightarrow> (\<exists>t. map_of es name = Some t \<and> is_dir t)"
  by (force simp: dirnames_of_def)

lemma in_filenames_iff:
  "distinct (map fst es) \<Longrightarrow>
     name \<in> set (filenames_of es) \<longleftrightarrow> (\<exists>t. map_of es name = Some t \<and> \<not> is_dir t)"
  by (force simp: filenames_of_def)

lemma distinct_dirnames: "distinct (map fst es) \<Longrightarrow> distinct (dirnames_of es)"
  unfolding dirnames_of_def by (rule distinct_map_filter)

lemma distinct_filenames: "distinct (map fst es) \<Longrightarrow> distinct (filenames_of es)"
  unfolding filenames_of_def by (rule distinct_map_filter)

lemma same_tree_is_dir: "same_tree t u \<Longrightarrow> is_dir t = is_dir u"
  by (cases t; cases u) (auto simp: is_dir_def)

lemma sort_distinct_set_eq:
  fixes xs ys :: "'a::linorder list"
  assumes "distinct xs" "distinct ys" "set xs = set ys"
  shows "sort xs = sort ys"
proof -
  have "mset (sort ys) = mset xs"
    using assms by (simp add: set_eq_iff_mset_eq_distinct)
  then show ?thesis by (rule properties_for_sort) simp
qed

lemma map_of_Some_name: "map_of es name = Some t \<Longrightarrow> name \<in> set (map fst es)"
  by (metis map_of_SomeD fst_conv image_eqI set_map)

lemma same_tree_entry:
  assumes "same_tree (Dir es) (Dir fs)" and "map_of es name = Some t"
  shows "\<exists>u. map_of fs name = Some u \<and> same_tree t u"
proof -
  from assms(1) have "\<forall>name \<in> set (map fst es).
         case map_of es name of
           None \<Rightarrow> True
         | Some t \<Rightarrow> (case map_of fs name of None \<Rightarrow> False | Some t' \<Rightarrow> same_tree t t')"
    unfolding same_tree.simps by (rule conjunct2)
  then have "case map_of es name of
           None \<Rightarrow> True
         | Some t \<Rightarrow> (case map_of fs name of None \<Rightarrow> False | Some t' \<Rightarrow> same_tree t t')"
    using map_of_Some_name [OF assms(2)] by (rule bspec)
  with assms(2) show ?thesis by (simp split: option.splits)
qed

lemma distinct_names_Dir: "distinct_names (Dir es) \<Longrightarrow> distinct (map fst es)"
  unfolding distinct_names.simps by (rule conjunct1)

lemma same_tree_Dir_names: "same_tree (Dir es) (Dir fs) \<Longrightarrow> set (map fst es) = set (map fst fs)"
  unfolding same_tree.simps by (rule conjunct1)

lemma same_tree_names:
  assumes d: "distinct (map fst es)" "distinct (map fst fs)" and s: "same_tree (Dir es) (Dir fs)"
  shows "set (dirnames_of es) = set (dirnames_of fs)"
    and "set (filenames_of es) = set (filenames_of fs)"
proof -
  have names: "set (map fst es) = set (map fst fs)" using s by (rule same_tree_Dir_names)
  have rel: "\<exists>t u. map_of es name = Some t \<and> map_of fs name = Some u \<and> is_dir t = is_dir u"
    if "name \<in> set (map fst es)" for name
  proof -
    from that obtain t where t: "map_of es name = Some t"
      by (metis map_of_eq_None_iff not_Some_eq set_map)
    from same_tree_entry [OF s t] obtain u where "map_of fs name = Some u" "same_tree t u" by blast
    with t show ?thesis using same_tree_is_dir by blast
  qed
  have in_es: "name \<in> set (map fst es)" if "map_of es name = Some t" for name t
    using that by (metis map_of_SomeD fst_conv image_eqI set_map)
  have in_fs: "name \<in> set (map fst fs)" if "map_of fs name = Some t" for name t
    using that by (metis map_of_SomeD fst_conv image_eqI set_map)
  show "set (dirnames_of es) = set (dirnames_of fs)"
  proof (rule set_eqI)
    fix name
    show "name \<in> set (dirnames_of es) \<longleftrightarrow> name \<in> set (dirnames_of fs)"
      unfolding in_dirnames_iff [OF d(1)] in_dirnames_iff [OF d(2)]
      using rel [of name] in_es [of name] in_fs [of name] names by fastforce
  qed
  show "set (filenames_of es) = set (filenames_of fs)"
  proof (rule set_eqI)
    fix name
    show "name \<in> set (filenames_of es) \<longleftrightarrow> name \<in> set (filenames_of fs)"
      unfolding in_filenames_iff [OF d(1)] in_filenames_iff [OF d(2)]
      using rel [of name] in_es [of name] in_fs [of name] names by fastforce
  qed
qed

lemma distinct_names_entry:
  assumes "distinct_names (Dir es)" and "map_of es name = Some t"
  shows "distinct_names t"
proof -
  from assms(1) have "\<forall>name \<in> set (map fst es).
         case map_of es name of None \<Rightarrow> True | Some t \<Rightarrow> distinct_names t"
    unfolding distinct_names.simps by (rule conjunct2)
  then have "case map_of es name of None \<Rightarrow> True | Some t \<Rightarrow> distinct_names t"
    using map_of_Some_name [OF assms(2)] by (rule bspec)
  with assms(2) show ?thesis by simp
qed

lemma os_walk_same:
  "visit = sort \<Longrightarrow> distinct_names t \<Longrightarrow> distinct_names u \<Longrightarrow> same_tree t u \<Longrightarrow>
     map sorted_view (os_walk visit path t) = map sorted_view (os_walk visit path u)"
proof (induction visit path t arbitrary: u rule: os_walk.induct)
  case (1 visit path z)
  then show ?case by (cases u) auto
next
  case (2 visit path es)
  from "2.prems"(4) obtain fs where u: "u = Dir fs" by (cases u) auto
  have d: "distinct (map fst es)" "distinct (map fst fs)"
    using "2.prems"(2,3) unfolding u by (auto dest: distinct_names_Dir simp del: distinct_names.simps)
  have s: "same_tree (Dir es) (Dir fs)" using "2.prems"(4) unfolding u .
  have dn: "sort (dirnames_of es) = sort (dirnames_of fs)"
    using same_tree_names(1) [OF d s] distinct_dirnames d by (intro sort_distinct_set_eq) auto
  have fn: "sort (filenames_of es) = sort (filenames_of fs)"
    using same_tree_names(2) [OF d s] distinct_filenames d by (intro sort_distinct_set_eq) auto
  have sub: "map sorted_view (case map_of es name of None \<Rightarrow> []
                | Some t \<Rightarrow> os_walk visit (join path name) t)
           = map sorted_view (case map_of fs name of None \<Rightarrow> []
                | Some t \<Rightarrow> os_walk visit (join path name) t)"
    if "name \<in> set (sort (dirnames_of es))" for name
  proof -
    from that obtain t where t: "map_of es name = Some t"
      using in_dirnames_iff [OF d(1)] by auto
    from same_tree_entry [OF s t] obtain t' where t': "map_of fs name = Some t'" "same_tree t t'"
      by blast
    have "map sorted_view (os_walk visit (join path name) t)
        = map sorted_view (os_walk visit (join path name) t')"
      using that "2.prems"(1) t
      by (intro "2.IH" [of name t t'] distinct_names_entry [OF "2.prems"(2) t]
            distinct_names_entry [OF "2.prems"(3) [unfolded u] t'(1)] t'(2)) auto
    with t t' show ?thesis by simp
  qed
  have step: "concat (map (\<lambda>name. map sorted_view (case map_of es name of None \<Rightarrow> []
                | Some t \<Rightarrow> os_walk visit (join path name) t)) (sort (dirnames_of es)))
      = concat (map (\<lambda>name. map sorted_view (case map_of fs name of None \<Rightarrow> []
                | Some t \<Rightarrow> os_walk visit (join path name) t)) (sort (dirnames_of es)))"
    by (rule arg_cong [where f = concat], rule map_cong [OF refl], rule sub)
  have A: "map sorted_view (os_walk visit path (Dir es)) =
     (path, sort (dirnames_of es), sort (filenames_of es)) #
     concat (map (\<lambda>name. map sorted_view (case map_of es name of None \<Rightarrow> []
                | Some t \<Rightarrow> os_walk visit (join path name) t)) (sort (dirnames_of es)))"
    unfolding "2.prems"(1) by (simp add: sorted_view_def map_concat comp_def)
  have B: "map sorted_view (os_walk visit path (Dir fs)) =
     (path, sort (dirnames_of fs), sort (filenames_of fs)) #
     concat (map (\<lambda>name. map sorted_view (case map_of fs name of None \<Rightarrow> []
                | Some t \<Rightarrow> os_walk visit (join path name) t)) (sort (dirnames_of fs)))"
    unfolding "2.prems"(1) by (simp add: sorted_view_def map_concat comp_def)
  show ?case unfolding u A B dn fn step [unfolded dn] by (rule refl)
qed

lemma zip_directory_sorted_view:
  "zip_directory pfc d =
     (\<lambda>(dirpath, dirnames, filenames). map (zip_entry pfc d dirpath) filenames) \<circ> sorted_view"
  by (rule ext) (simp add: zip_directory_def sorted_view_def split: prod.splits)

lemma zip_from_same:
  assumes "distinct_names t" "distinct_names u" "same_tree t u"
  shows "zip_from pfc d path t = zip_from pfc d path u"
proof -
  let ?g = "\<lambda>(dirpath, dirnames, filenames). map (zip_entry pfc d dirpath) filenames"
  have "zip_from pfc d path t = concat (map ?g (map sorted_view (os_walk sort path t)))"
    unfolding zip_from_def zip_directory_sorted_view by (simp only: map_map)
  also have "\<dots> = concat (map ?g (map sorted_view (os_walk sort path u)))"
    using os_walk_same [OF refl assms] by simp
  also have "\<dots> = zip_from pfc d path u"
    unfolding zip_from_def zip_directory_sorted_view by (simp only: map_map)
  finally show ?thesis .
qed

lemma ZipManager_exit_zip_from:
  "ZipManager_exit pfc d tree = (if d = [] then [] else zip_from pfc d d tree)"
  by (simp add: ZipManager_exit_def walk_def zip_from_def)

lemma concat_concat_map:
  "concat (concat (map f xs)) = concat (map (\<lambda>x. concat (f x)) xs)"
  by (induction xs) auto

lemma zip_from_Dir:
  "zip_from pfc d path (Dir es) =
     map (zip_entry pfc d path) (sort (filenames_of es)) @
     concat (map (\<lambda>name. case map_of es name of
                            None \<Rightarrow> []
                          | Some t \<Rightarrow> zip_from pfc d (join path name) t)
               (sort (dirnames_of es)))"
proof -
  have "concat (map (\<lambda>name. concat (map (zip_directory pfc d)
            (case map_of es name of None \<Rightarrow> [] | Some t \<Rightarrow> os_walk sort (join path name) t)))
          (sort (dirnames_of es)))
      = concat (map (\<lambda>name. case map_of es name of
                            None \<Rightarrow> []
                          | Some t \<Rightarrow> zip_from pfc d (join path name) t)
               (sort (dirnames_of es)))"
    by (rule arg_cong [where f = concat], rule map_cong)
       (auto simp: zip_from_def split: option.splits)
  then show ?thesis
    by (simp add: zip_from_def zip_directory_def map_concat comp_def concat_concat_map)
qed

lemma ZipManager_enter_apply:
  "ZipManager_enter table infolist name =
     (case map_of (rev infolist) name of Some c \<Rightarrow> Some c | None \<Rightarrow> table name)"
  unfolding ZipManager_enter_def
proof (induction infolist arbitrary: table)
  case Nil
  then show ?case by simp
next
  case (Cons a infolist)
  obtain f c where a: "a = (f, c)" by (cases a)
  let ?g = "\<lambda>table (filename, compress_type). table(filename \<mapsto> compress_type)"
  have "foldl ?g table (a # infolist) name = foldl ?g (table(f \<mapsto> c)) infolist name"
    by (simp add: a del: fun_upd_apply)
  also have "\<dots> = (case map_of (rev infolist) name of Some c' \<Rightarrow> Some c'
                      | None \<Rightarrow> (table(f \<mapsto> c)) name)"
    by (rule Cons.IH)
  also have "\<dots> = (case map_of (rev (a # infolist)) name of Some c' \<Rightarrow> Some c'
                      | None \<Rightarrow> table name)"
    by (simp add: a map_of_append map_add_def split: option.splits)
  finally show ?case .
qed

lemma zip_entry_compress:
  "zip_entry table d dirpath filename = (fp, ap, c) \<Longrightarrow>
     c = (case table ap of Some c' \<Rightarrow> c' | None \<Rightarrow> ZIP_DEFLATED)"
  by (auto simp: zip_entry_def Let_def)

lemma ZipManager_exit_compress:
  assumes "(fp, ap, c) \<in> set (ZipManager_exit table d tree)"
  shows "c = (case table ap of Some c' \<Rightarrow> c' | None \<Rightarrow> ZIP_DEFLATED)"
proof -
  from assms obtain x where "x \<in> set (walk sort d tree)" "(fp, ap, c) \<in> set (zip_directory table d x)"
    by (auto simp: ZipManager_exit_def)
  then obtain dirpath filename where "zip_entry table d dirpath filename = (fp, ap, c)"
    by (cases x) (auto simp: zip_directory_def)
  then show ?thesis by (rule zip_entry_compress)
qed

lemma ZipManager_compression:
  assumes "(fp, ap, c) \<in> set (ZipManager_exit (ZipManager_enter table infolist) d tree)"
  shows "(ap \<in> fst ` set infolist \<longrightarrow> map_of (rev infolist) ap = Some c) \<and>
         (ap \<notin> fst ` set infolist \<longrightarrow>
            c = (case table ap of Some c' \<Rightarrow> c' | None \<Rightarrow> ZIP_DEFLATED))"
proof -
  have c: "c = (case ZipManager_enter table infolist ap of Some c' \<Rightarrow> c' | None \<Rightarrow> ZIP_DEFLATED)"
    using assms by (rule ZipManager_exit_compress)
  have "map_of (rev infolist) ap = None \<longleftrightarrow> ap \<notin> fst ` set infolist"
    by (simp add: map_of_eq_None_iff)
  then show ?thesis using c
    by (auto simp: ZipManager_enter_apply split: option.splits)
qed

lemma ZipManager_first_archive:
  assumes "(fp, ap, c) \<in> set (ZipManager_exit (ZipManager_enter class_per_file_compression infolist) d tree)"
  shows "(ap \<in> fst ` set infolist \<longrightarrow> map_of (rev infolist) ap = Some c) \<and>
         (ap \<notin> fst ` set infolist \<longrightarrow> c = ZIP_DEFLATED)"
  using ZipManager_compression [OF assms] by (simp add: class_per_file_compression_def)

text \<open>
  Claim C1: an output entry whose path was in the input archive is written with the
  method recorded for it, and an entry whose path was not in the input archive is written
  with deflate. The first half holds, and so does the second for the first archive a
  process opens (\<open>ZipManager_first_archive\<close>). But \<^verbatim>\<open>per_file_compression\<close> is an
  attribute of the class, and what an earlier archive recorded stays in it: after a first
  archive in which \<^verbatim>\<open>res/a.png\<close> is stored, a second archive that holds only
  \<^verbatim>\<open>classes.dex\<close>, repacked over a tree to which \<^verbatim>\<open>res/a.png\<close> was added, writes
  \<^verbatim>\<open>res/a.png\<close> with the stored method, not with deflate.
\<close>

theorem ZipManager_table_outlives_archive:
  "ZipManager_exit
     (ZipManager_enter
        (ZipManager_enter class_per_file_compression [(''res/a.png'', ZIP_STORED)])
        [(''classes.dex'', ZIP_DEFLATED)])
     ''out''
     (Dir [(''classes.dex'', File 9), (''res'', Dir [(''a.png'', File 1)])])
   = [(''out/classes.dex'', ''classes.dex'', ZIP_DEFLATED),
      (''out/res/a.png'', ''res/a.png'', ZIP_STORED)]"
  by code_simp

text \<open>
  Claim C2. The entries \<^verbatim>\<open>__exit__\<close> writes, and their order, depend on the contents of the
  working tree only: two trees that hold the same files and directories, in whatever order
  their directories list them, give the same sequence of \<^verbatim>\<open>write\<close> calls. The order is that
  of a depth-first walk: for a directory, its own files in sorted order of their names,
  then each of its subdirectories in sorted order of their names, in the same way.
\<close>

theorem ZipManager_exit_deterministic:
  "(distinct_names t \<and> distinct_names u \<and> same_tree t u \<longrightarrow>
      ZipManager_exit table d t = ZipManager_exit table d u) \<and>
   (d \<noteq> [] \<longrightarrow> ZipManager_exit table d t = zip_from table d d t) \<and>
   zip_from table d path (File z) = [] \<and>
   zip_from table d path (Dir es) =
     map (zip_entry table d path) (sort (filenames_of es)) @
     concat (map (\<lambda>name. case map_of es name of
                            None \<Rightarrow> []
                          | Some t' \<Rightarrow> zip_from table d (join path name) t')
               (sort (dirnames_of es)))"
proof (intro conjI impI)
  assume "distinct_names t \<and> distinct_names u \<and> same_tree t u"
  then show "ZipManager_exit table d t = ZipManager_exit table d u"
    by (simp add: ZipManager_exit_zip_from zip_from_same)
next
  assume "d \<noteq> []"
  then show "ZipManager_exit table d t = zip_from table d d t"
    by (simp add: ZipManager_exit_zip_from)
next
  show "zip_from table d path (File z) = []" by (simp add: zip_from_def)
next
  show "zip_from table d path (Dir es) =
     map (zip_entry table d path) (sort (filenames_of es)) @
     concat (map (\<lambda>name. case map_of es name of
                            None \<Rightarrow> []
                          | Some t' \<Rightarrow> zip_from table d (join path name) t')
               (sort (dirnames_of es)))"
    by (rule zip_from_Dir)
qed

theorem ZipManager_exit_deterministic_witness:
  "distinct_names example_tree \<and> distinct_names example_tree_relisted \<and>
   same_tree example_tree example_tree_relisted \<and>
   example_tree \<noteq> example_tree_relisted \<and>
   ZipManager_exit class_per_file_compression ''out'' example_tree_relisted
     = ZipManager_exit class_per_file_compression ''out'' example_tree \<and>
   ZipManager_exit class_per_file_compression ''out'' example_tree
     = [(''out/AndroidManifest.xml'', ''AndroidManifest.xml'', ZIP_DEFLATED),
        (''out/classes.dex'', ''classes.dex'', ZIP_DEFLATED),
        (''out/assets/x86/libs.zstd'', ''assets/x86/libs.zstd'', ZIP_DEFLATED),
        (''out/res/a.png'', ''res/a.png'', ZIP_DEFLATED),
        (''out/res/b.png'', ''res/b.png'', ZIP_DEFLATED)]"
proof -
  have a: "distinct_names example_tree" by code_simp
  have b: "distinct_names example_tree_relisted" by code_simp
  have c: "same_tree example_tree example_tree_relisted" by code_simp
  have d: "example_tree \<noteq> example_tree_relisted"
    by (simp add: example_tree_def example_tree_relisted_def)
  have e: "ZipManager_exit class_per_file_compression ''out'' example_tree
     = [(''out/AndroidManifest.xml'', ''AndroidManifest.xml'', ZIP_DEFLATED),
        (''out/classes.dex'', ''classes.dex'', ZIP_DEFLATED),
        (''out/assets/x86/libs.zstd'', ''assets/x86/libs.zstd'', ZIP_DEFLATED),
        (''out/res/a.png'', ''res/a.png'', ZIP_DEFLATED),
        (''out/res/b.png'', ''res/b.png'', ZIP_DEFLATED)]"
    by code_simp
  show ?thesis
    using ZipManager_exit_deterministic
      [of example_tree example_tree_relisted class_per_file_compression "''out''"] a b c d e
    by simp
qed

subsection \<open>\<^verbatim>\<open>LibraryManager\<close>\<close>

lemma mset_libs_of_files:
  assumes "\<forall>(n, t) \<in> set F. getsize es n = file_size t"
  shows "mset (map (join path) (filter (\<lambda>filename. filename = xz_lib_name) (map fst F)) @
               map (join path) (filter (\<lambda>filename. 0 < getsize es filename)
                  (filter (\<lambda>filename. filename = zstd_lib_name) (map fst F))))
       = mset (map fst (filter wanted (map (\<lambda>(name, t). (join path name, name, file_size t)) F)))"
  using assms
  by (induction F)
     (auto simp: wanted_def xz_lib_name_def zstd_lib_name_def simp del: mset_map mset_filter)

lemma getsize_member:
  "distinct (map fst es) \<Longrightarrow> (n, t) \<in> set es \<Longrightarrow> getsize es n = file_size t"
  by (simp add: getsize_def)

lemma libs_in_mset:
  assumes "distinct (map fst es)"
  shows "mset (libs_in (path, dn, filenames_of es, es))
       = mset (map fst (filter wanted
           (map (\<lambda>(name, t). (join path name, name, file_size t))
              (filter (\<lambda>(name, t). \<not> is_dir t) es))))"
proof -
  have "\<forall>(n, t) \<in> set (filter (\<lambda>(name, t). \<not> is_dir t) es). getsize es n = file_size t"
    using getsize_member [OF assms] by auto
  from mset_libs_of_files [OF this, of path] show ?thesis
    by (simp add: libs_in_def filenames_of_def)
qed

lemma map_subdirs:
  assumes "distinct (map fst es)"
  shows "map (\<lambda>d. case map_of es d of None \<Rightarrow> [] | Some t \<Rightarrow> f d t) (dirnames_of es)
       = map (\<lambda>x. f (fst x) (snd x)) (filter (\<lambda>(n, t). is_dir t) es)"
proof -
  have "map (\<lambda>d. case map_of es d of None \<Rightarrow> [] | Some t \<Rightarrow> f d t) (dirnames_of es)
      = map (\<lambda>x. case map_of es (fst x) of None \<Rightarrow> [] | Some t \<Rightarrow> f (fst x) t)
          (filter (\<lambda>(n, t). is_dir t) es)"
    by (simp add: dirnames_of_def comp_def)
  also have "\<dots> = map (\<lambda>x. f (fst x) (snd x)) (filter (\<lambda>(n, t). is_dir t) es)"
  proof (rule map_cong [OF refl])
    fix x assume "x \<in> set (filter (\<lambda>(n, t). is_dir t) es)"
    then have "(fst x, snd x) \<in> set es" by simp
    with assms have "map_of es (fst x) = Some (snd x)" by simp
    then show "(case map_of es (fst x) of None \<Rightarrow> [] | Some t \<Rightarrow> f (fst x) t)
             = f (fst x) (snd x)"
      by simp
  qed
  finally show ?thesis .
qed

lemma mset_concat_map: "mset (concat (map f xs)) = sum_list (map (\<lambda>x. mset (f x)) xs)"
  by (induction xs) auto

lemma distinct_names_member:
  "distinct_names (Dir es) \<Longrightarrow> (n, t) \<in> set es \<Longrightarrow> distinct_names t"
proof -
  assume a: "distinct_names (Dir es)" and m: "(n, t) \<in> set es"
  from a have d: "distinct (map fst es)" and
    all: "\<forall>name \<in> set (map fst es). case map_of es name of None \<Rightarrow> True | Some t \<Rightarrow> distinct_names t"
    unfolding distinct_names.simps by blast+
  from d m have "map_of es n = Some t" by simp
  moreover from m have "n \<in> set (map fst es)" by force
  ultimately show ?thesis using all by force
qed

lemma concat_concat_map':
  "concat (concat (map f xs)) = concat (map (\<lambda>x. concat (f x)) xs)"
  by (induction xs) auto

lemma libs_walk_mset:
  "visit = (\<lambda>dirnames. dirnames) \<Longrightarrow> distinct_names t \<Longrightarrow>
     mset (concat (map libs_in (os_walk visit path t)))
       = mset (map fst (filter wanted (all_files path t)))"
proof (induction visit path t rule: os_walk.induct)
  case (1 visit path z)
  then show ?case by simp
next
  case (2 visit path es)
  have d: "distinct (map fst es)" using "2.prems"(2)
    unfolding distinct_names.simps by blast
  let ?sub = "\<lambda>x. concat (map libs_in (os_walk visit (join path (fst x)) (snd x)))"
  let ?spec = "\<lambda>x. map fst (filter wanted (all_files (join path (fst x)) (snd x)))"
  let ?dirs = "filter (\<lambda>(n, t). is_dir t) es"
  let ?own = "map (\<lambda>(name, t). (join path name, name, file_size t))
              (filter (\<lambda>(name, t). \<not> is_dir t) es)"
  have walk: "os_walk visit path (Dir es) =
      (path, dirnames_of es, filenames_of es, es) #
      concat (map (\<lambda>d. case map_of es d of None \<Rightarrow> [] | Some t \<Rightarrow> os_walk visit (join path d) t)
                (dirnames_of es))"
    unfolding "2.prems"(1) by simp
  have "concat (map libs_in (os_walk visit path (Dir es))) =
      libs_in (path, dirnames_of es, filenames_of es, es) @
      concat (map (\<lambda>d. case map_of es d of None \<Rightarrow> []
                         | Some t \<Rightarrow> concat (map libs_in (os_walk visit (join path d) t)))
                (dirnames_of es))"
    unfolding walk
    by (simp add: map_concat concat_concat_map' comp_def
          option.case_distrib [of "\<lambda>xs. concat (map libs_in xs)"] cong: option.case_cong)
  also have "map (\<lambda>d. case map_of es d of None \<Rightarrow> []
                         | Some t \<Rightarrow> concat (map libs_in (os_walk visit (join path d) t)))
                (dirnames_of es)
      = map ?sub ?dirs"
    by (rule map_subdirs [OF d])
  finally have E: "concat (map libs_in (os_walk visit path (Dir es))) =
      libs_in (path, dirnames_of es, filenames_of es, es) @ concat (map ?sub ?dirs)" .
  have L: "mset (concat (map libs_in (os_walk visit path (Dir es)))) =
      mset (libs_in (path, dirnames_of es, filenames_of es, es)) +
      sum_list (map (\<lambda>x. mset (?sub x)) ?dirs)"
    unfolding E by (simp only: mset_append mset_concat_map)
  have IH: "mset (?sub x) = mset (?spec x)" if "x \<in> set ?dirs" for x
  proof -
    from that have m: "(fst x, snd x) \<in> set es" and dir: "is_dir (snd x)"
      by (auto simp: case_prod_beta)
    with d have mo: "map_of es (fst x) = Some (snd x)" by simp
    have "fst x \<in> fst ` set ?dirs" using that by (rule imageI)
    then have "fst x \<in> set (visit (dirnames_of es))"
      unfolding "2.prems"(1) dirnames_of_def by simp
    then show ?thesis
      using "2.prems"(1) distinct_names_member [OF "2.prems"(2) m] mo
      by (intro "2.IH") auto
  qed
  have F: "map fst (filter wanted (all_files path (Dir es))) =
      map fst (filter wanted ?own) @ concat (map ?spec ?dirs)"
    by (simp add: filter_concat map_concat comp_def case_prod_beta)
  have R: "mset (map fst (filter wanted (all_files path (Dir es)))) =
      mset (map fst (filter wanted ?own)) + sum_list (map (\<lambda>x. mset (?spec x)) ?dirs)"
    unfolding F by (simp only: mset_append mset_concat_map)
  have S: "sum_list (map (\<lambda>x. mset (?sub x)) ?dirs) = sum_list (map (\<lambda>x. mset (?spec x)) ?dirs)"
    by (rule arg_cong [where f = sum_list], rule map_cong [OF refl], rule IH)
  show ?case unfolding L R S libs_in_mset [OF d] ..
qed

lemma map_of_replace_entry:
  "map_of (replace_entry c t es) k = (if k = c then map_option (\<lambda>_. t) (map_of es c) else map_of es k)"
  by (induction es) (auto simp: replace_entry_def)

lemma map_of_remove_entry:
  "map_of (remove_entry c es) k = (if k = c then None else map_of es k)"
  by (induction es) (auto simp: remove_entry_def)

lemma kind_of_Dir [simp]: "kind_of (Dir es) = Directory"
  by (simp add: kind_of_def)

lemma fs_rmtree_lookup:
  "fs_rmtree t cs p = Inr t' \<Longrightarrow>
     map_option kind_of (fs_lookup t' ds) =
       (if prefix cs ds then None else map_option kind_of (fs_lookup t ds))"
proof (induction t cs p arbitrary: t' ds rule: fs_rmtree.induct)
  case (1 t p)
  then show ?case by simp
next
  case (2 z c cs p)
  then show ?case by simp
next
  case (3 es c p)
  then have t': "t' = Dir (remove_entry c es)"
    by (auto split: option.splits node.splits)
  show ?case
  proof (cases ds)
    case Nil
    then show ?thesis by (simp add: t')
  next
    case (Cons d ds')
    then show ?thesis by (simp add: t' map_of_remove_entry)
  qed
next
  case (4 es c v va p)
  from "4.prems" obtain t0 t1 where m: "map_of es c = Some t0"
    and r: "fs_rmtree t0 (v # va) p = Inr t1" and t': "t' = Dir (replace_entry c t1 es)"
    by (auto split: option.splits sum.splits)
  show ?case
  proof (cases ds)
    case Nil
    then show ?thesis by (simp add: t')
  next
    case (Cons d ds')
    show ?thesis
    proof (cases "d = c")
      case True
      with Cons m t' "4.IH" [OF m r, of ds'] show ?thesis
        by (simp add: map_of_replace_entry)
    next
      case False
      with Cons t' show ?thesis by (simp add: map_of_replace_entry)
    qed
  qed
qed

lemma fs_rmtree_ok:
  "fs_lookup t cs = Some (Dir es') \<Longrightarrow> cs \<noteq> [] \<Longrightarrow> \<exists>t'. fs_rmtree t cs p = Inr t'"
proof (induction t cs p arbitrary: es' rule: fs_rmtree.induct)
  case (1 t p)
  then show ?case by simp
next
  case (2 z c cs p)
  then show ?case by simp
next
  case (3 es c p)
  then show ?case by (auto split: option.splits node.splits)
next
  case (4 es c v va p)
  from "4.prems"(1) obtain t0 where m: "map_of es c = Some t0"
    and l: "fs_lookup t0 (v # va) = Some (Dir es')"
    by (auto split: option.splits)
  from "4.IH" [OF m l] obtain t1 where "fs_rmtree t0 (v # va) p = Inr t1" by auto
  with m show ?case by simp
qed

lemma fs_mkdir_lookup: "fs_mkdir t cs p = Inr t' \<Longrightarrow> fs_lookup t' cs = Some (Dir [])"
proof (induction t cs p arbitrary: t' rule: fs_mkdir.induct)
  case (1 t p)
  then show ?case by simp
next
  case (2 z c cs p)
  then show ?case by simp
next
  case (3 es c p)
  then show ?case by (auto split: if_splits simp: map_add_def)
next
  case (4 es c v va p)
  from "4.prems" obtain t0 t1 where m: "map_of es c = Some t0"
    and r: "fs_mkdir t0 (v # va) p = Inr t1" and t': "t' = Dir (replace_entry c t1 es)"
    by (auto split: option.splits sum.splits)
  from "4.IH" [OF m r] m show ?case by (simp add: t' map_of_replace_entry)
qed

lemma fs_mkdir_keeps_dir:
  "fs_mkdir t cs p = Inr t' \<Longrightarrow> fs_lookup t ds = Some (Dir es) \<Longrightarrow>
     \<exists>es'. fs_lookup t' ds = Some (Dir es')"
proof (induction t cs p arbitrary: t' ds es rule: fs_mkdir.induct)
  case (1 t p)
  then show ?case by simp
next
  case (2 z c cs p)
  then show ?case by simp
next
  case (3 es0 c p)
  then have n: "map_of es0 c = None" and t': "t' = Dir (es0 @ [(c, Dir [])])"
    by (auto split: if_splits)
  show ?case
  proof (cases ds)
    case Nil
    then show ?thesis by (simp add: t')
  next
    case (Cons d ds')
    with "3.prems"(2) obtain t0 where "map_of es0 d = Some t0" "fs_lookup t0 ds' = Some (Dir es)"
      by (auto split: option.splits)
    with Cons show ?thesis by (simp add: t' map_add_def)
  qed
next
  case (4 es0 c v va p)
  from "4.prems"(1) obtain t0 t1 where m: "map_of es0 c = Some t0"
    and r: "fs_mkdir t0 (v # va) p = Inr t1" and t': "t' = Dir (replace_entry c t1 es0)"
    by (auto split: option.splits sum.splits)
  show ?case
  proof (cases ds)
    case Nil
    then show ?thesis by (simp add: t')
  next
    case (Cons d ds')
    show ?thesis
    proof (cases "d = c")
      case True
      with Cons "4.prems"(2) m have "fs_lookup t0 ds' = Some (Dir es)" by simp
      from "4.IH" [OF m r this] True Cons m show ?thesis
        by (simp add: t' map_of_replace_entry)
    next
      case False
      with Cons "4.prems"(2) show ?thesis by (simp add: t' map_of_replace_entry)
    qed
  qed
qed

lemma fs_write_keeps_dir:
  "fs_lookup t ds = Some (Dir es) \<Longrightarrow> \<exists>es'. fs_lookup (fs_write t cs z) ds = Some (Dir es')"
proof (induction t cs z arbitrary: ds es rule: fs_write.induct)
  case (1 t z)
  then show ?case by simp
next
  case (2 y c cs z)
  then show ?case by simp
next
  case (3 es0 c z)
  show ?case
  proof (cases ds)
    case Nil
    then show ?thesis by (simp split: option.splits node.splits)
  next
    case (Cons d ds')
    with "3.prems" obtain t0 where d: "map_of es0 d = Some t0" "fs_lookup t0 ds' = Some (Dir es)"
      by (auto split: option.splits)
    show ?thesis
    proof (cases "map_of es0 c")
      case None
      with Cons d show ?thesis by (simp add: map_add_def)
    next
      case (Some tc)
      show ?thesis
      proof (cases tc)
        case (File y)
        with Some d have "d \<noteq> c" by (cases ds') auto
        with Cons d Some File show ?thesis by (simp add: map_of_replace_entry)
      next
        case (Dir x)
        with Cons d Some show ?thesis by simp
      qed
    qed
  qed
next
  case (4 es0 c v va z)
  show ?case
  proof (cases ds)
    case Nil
    then show ?thesis by (simp split: option.splits)
  next
    case (Cons d ds')
    with "4.prems" obtain t0 where d: "map_of es0 d = Some t0" "fs_lookup t0 ds' = Some (Dir es)"
      by (auto split: option.splits)
    show ?thesis
    proof (cases "map_of es0 c")
      case None
      with Cons d show ?thesis by simp
    next
      case (Some tc)
      show ?thesis
      proof (cases "d = c")
        case True
        with d Some have "fs_lookup tc ds' = Some (Dir es)" by simp
        from "4.IH" [OF Some this] True Cons Some show ?thesis
          by (simp add: map_of_replace_entry)
      next
        case False
        with Cons d Some show ?thesis by (simp add: map_of_replace_entry)
      qed
    qed
  qed
qed

lemma write_file_keeps_dir:
  "fs_lookup t ds = Some (Dir es) \<Longrightarrow> \<exists>es'. fs_lookup (write_file root t p z) ds = Some (Dir es')"
  by (auto simp: write_file_def split: option.splits intro: fs_write_keeps_dir)

lemma extract_libs_keeps_dir:
  "extract_libs shell root ed libs n t cmds = (r, t', cmds') \<Longrightarrow>
     fs_lookup t ds = Some (Dir es) \<Longrightarrow> \<exists>es'. fs_lookup t' ds = Some (Dir es')"
proof (induction libs arbitrary: n t cmds es)
  case Nil
  then show ?case by auto
next
  case (Cons lib rest)
  let ?path = "join ed (''lib_'' @ str_nat n @ ''.so'')"
  let ?cmd = "extract_cmd lib ?path"
  obtain ok out where sh: "shell ?cmd = (ok, out)" by (cases "shell ?cmd")
  let ?t1 = "case out of None \<Rightarrow> t | Some z \<Rightarrow> write_file root t ?path z"
  have "\<exists>es1. fs_lookup ?t1 ds = Some (Dir es1)"
  proof (cases out)
    case None
    then show ?thesis using Cons.prems(2) by simp
  next
    case (Some z)
    then show ?thesis using write_file_keeps_dir [OF Cons.prems(2), of root ?path z] by simp
  qed
  then obtain es1 where t1: "fs_lookup ?t1 ds = Some (Dir es1)" by blast
  show ?case
  proof (cases ok)
    case False
    with Cons.prems(1) sh have "?t1 = t'" by (cases out) (auto simp: Let_def)
    with t1 show ?thesis by auto
  next
    case True
    with Cons.prems(1) sh
    have "extract_libs shell root ed rest (n + 1) ?t1 (cmds @ [?cmd]) = (r, t', cmds')"
      by (cases out) (auto simp: Let_def)
    from Cons.IH [OF this t1] show ?thesis .
  qed
qed

lemma suffix_single: "suffix [c] xs \<longleftrightarrow> xs \<noteq> [] \<and> last xs = c"
  by (cases xs rule: rev_cases) auto

lemma join_lib:
  "root \<noteq> [] \<Longrightarrow>
     join root ''lib'' = (if suffix ''/'' root then root else root @ ''/'') @ ''lib''"
  by (simp add: join_def)

lemma join_scratch:
  "root \<noteq> [] \<Longrightarrow>
     join (join root ''lib'') ''__extracted_libs__'' =
       (if suffix ''/'' root then root else root @ ''/'') @ ''lib/__extracted_libs__''"
  by (simp add: join_def suffix_single)

lemma components_lib: "root \<noteq> [] \<Longrightarrow> components root (join root ''lib'') = Some [''lib'']"
  by (simp add: join_lib components_def)

lemma components_scratch:
  "root \<noteq> [] \<Longrightarrow>
     components root (join (join root ''lib'') ''__extracted_libs__'')
       = Some [''lib'', ''__extracted_libs__'']"
  by (simp add: join_scratch components_def)

lemma libs_to_extract_empty_root: "libs_to_extract [] tree = []"
  by (simp add: libs_to_extract_def walk_def)

lemma LibraryManager_exit_removes:
  assumes "components root d = Some cs" "cs \<noteq> []" "fs_lookup tree' cs = Some (Dir es)"
  shows "\<exists>tree2. LibraryManager_exit root (Some d) tree' = (None, tree2) \<and>
           (\<forall>ds. map_option kind_of (fs_lookup tree2 ds) =
                  (if prefix cs ds then None else map_option kind_of (fs_lookup tree' ds)))"
proof -
  from fs_rmtree_ok [OF assms(3,2)] obtain tree2 where r: "fs_rmtree tree' cs d = Inr tree2" by blast
  then have "LibraryManager_exit root (Some d) tree' = (None, tree2)"
    using assms(1) by (simp add: LibraryManager_exit_def shutil_rmtree_def)
  with fs_rmtree_lookup [OF r] show ?thesis by blast
qed

lemma LibraryManager_enter_created:
  assumes en: "LibraryManager_enter shell root t0 tree = (None, tld, tree1, cmds)"
    and libs: "libs_to_extract root tree \<noteq> []"
  shows "root \<noteq> []"
    and "os_path_exists root tree (join root ''lib'') \<Longrightarrow>
           tld = Some (join (join root ''lib'') ''__extracted_libs__'') \<and>
           (\<exists>es. fs_lookup tree1 [''lib'', ''__extracted_libs__''] = Some (Dir es))"
    and "\<not> os_path_exists root tree (join root ''lib'') \<Longrightarrow>
           tld = Some (join root ''lib'') \<and> (\<exists>es. fs_lookup tree1 [''lib''] = Some (Dir es))"
proof -
  show root: "root \<noteq> []" using libs libs_to_extract_empty_root by auto
  let ?L = "join root ''lib''"
  let ?E = "join ?L ''__extracted_libs__''"
  obtain x treeA where ens: "ensure_libs_dir root tree ?L ?E = (x, treeA)"
    by (cases "ensure_libs_dir root tree ?L ?E")
  from en libs ens obtain created where x: "x = Inr created"
    by (cases x) (auto simp: LibraryManager_enter_def Let_def)
  from en libs ens x
  have ex: "extract_libs shell root ?E (libs_to_extract root tree) 0 treeA [] = (None, tree1, cmds)"
    and tld: "tld = Some created"
    by (auto simp: LibraryManager_enter_def Let_def split: prod.splits)
  {
    assume e: "os_path_exists root tree ?L"
    with ens x have mk: "os_mkdir root tree ?E = Inr treeA" and c: "created = ?E"
      by (auto simp: ensure_libs_dir_def split: sum.splits)
    from mk have "fs_mkdir tree [''lib'', ''__extracted_libs__''] ?E = Inr treeA"
      by (simp add: os_mkdir_def components_scratch [OF root])
    then have "fs_lookup treeA [''lib'', ''__extracted_libs__''] = Some (Dir [])"
      by (rule fs_mkdir_lookup)
    from extract_libs_keeps_dir [OF ex this] tld c
    show "tld = Some ?E \<and> (\<exists>es. fs_lookup tree1 [''lib'', ''__extracted_libs__''] = Some (Dir es))"
      by simp
  }
  {
    assume e: "\<not> os_path_exists root tree ?L"
    with ens x obtain treeB where mk1: "os_mkdir root tree ?L = Inr treeB"
      and mk2: "os_mkdir root treeB ?E = Inr treeA" and c: "created = ?L"
      by (auto simp: ensure_libs_dir_def split: sum.splits)
    from mk1 have "fs_mkdir tree [''lib''] ?L = Inr treeB"
      by (simp add: os_mkdir_def components_lib [OF root])
    then have b: "fs_lookup treeB [''lib''] = Some (Dir [])" by (rule fs_mkdir_lookup)
    from mk2 have "fs_mkdir treeB [''lib'', ''__extracted_libs__''] ?E = Inr treeA"
      by (simp add: os_mkdir_def components_scratch [OF root])
    from fs_mkdir_keeps_dir [OF this b] obtain es' where "fs_lookup treeA [''lib''] = Some (Dir es')"
      by blast
    from extract_libs_keeps_dir [OF ex this] tld c
    show "tld = Some ?L \<and> (\<exists>es. fs_lookup tree1 [''lib''] = Some (Dir es))"
      by simp
  }
qed

text \<open>
  Claim C8. In a tree whose directories have no two entries of one name, the queue that
  \<^verbatim>\<open>__enter__\<close> builds holds, one for one, the paths of the files named \<^verbatim>\<open>libs.xzs\<close> and of
  the files named \<^verbatim>\<open>libs.zstd\<close> of positive size: an empty \<^verbatim>\<open>libs.zstd\<close> adds nothing to it.
  When no file is named \<^verbatim>\<open>libs.xzs\<close> and every \<^verbatim>\<open>libs.zstd\<close> is empty, the queue is empty,
  \<^verbatim>\<open>__enter__\<close> creates no directory and runs no command, and \<^verbatim>\<open>temporary_libs_dir\<close> stays as
  it was, unset.
\<close>

theorem LibraryManager_enter_skips_empty_zstd:
  assumes "distinct_names tree"
  shows "(apk_dir \<noteq> [] \<longrightarrow>
            mset (libs_to_extract apk_dir tree)
              = mset (map fst (filter wanted (all_files apk_dir tree)))) \<and>
         ((\<forall>(p, name, z) \<in> set (all_files apk_dir tree).
              name \<noteq> xz_lib_name \<and> (name = zstd_lib_name \<longrightarrow> z = 0)) \<longrightarrow>
            libs_to_extract apk_dir tree = [] \<and>
            LibraryManager_enter shell apk_dir temporary_libs_dir tree
              = (None, temporary_libs_dir, tree, []))"
proof (intro conjI impI)
  assume "apk_dir \<noteq> []"
  then show q: "mset (libs_to_extract apk_dir tree)
              = mset (map fst (filter wanted (all_files apk_dir tree)))"
    using libs_walk_mset [OF refl assms, of apk_dir]
    by (simp add: libs_to_extract_def walk_def)
next
  assume none: "\<forall>(p, name, z) \<in> set (all_files apk_dir tree).
              name \<noteq> xz_lib_name \<and> (name = zstd_lib_name \<longrightarrow> z = 0)"
  then have "filter wanted (all_files apk_dir tree) = []"
    by (auto simp: filter_empty_conv wanted_def)
  then have "mset (concat (map libs_in (os_walk (\<lambda>dirnames. dirnames) apk_dir tree))) = {#}"
    using libs_walk_mset [OF refl assms, of apk_dir] by simp
  then show e: "libs_to_extract apk_dir tree = []"
    by (simp add: libs_to_extract_def walk_def)
  then show "LibraryManager_enter shell apk_dir temporary_libs_dir tree
              = (None, temporary_libs_dir, tree, [])"
    by (simp add: LibraryManager_enter_def)
qed

theorem LibraryManager_enter_skips_empty_zstd_witness:
  "distinct_names example_tree \<and>
   all_files ''ex'' example_tree
     = [(''ex/classes.dex'', ''classes.dex'', 9),
        (''ex/AndroidManifest.xml'', ''AndroidManifest.xml'', 2),
        (''ex/res/b.png'', ''b.png'', 3), (''ex/res/a.png'', ''a.png'', 1),
        (''ex/assets/x86/libs.zstd'', ''libs.zstd'', 0)] \<and>
   libs_to_extract ''ex'' example_tree = [] \<and>
   LibraryManager_enter example_shell ''ex'' None example_tree = (None, None, example_tree, []) \<and>
   distinct_names tree_with_lib \<and>
   libs_to_extract ''ex'' tree_with_lib = [''ex/assets/libs.xzs'']"
proof -
  have d: "distinct_names example_tree" by code_simp
  have f: "all_files ''ex'' example_tree
     = [(''ex/classes.dex'', ''classes.dex'', 9),
        (''ex/AndroidManifest.xml'', ''AndroidManifest.xml'', 2),
        (''ex/res/b.png'', ''b.png'', 3), (''ex/res/a.png'', ''a.png'', 1),
        (''ex/assets/x86/libs.zstd'', ''libs.zstd'', 0)]"
    by code_simp
  have h: "\<forall>(p, name, z) \<in> set (all_files ''ex'' example_tree).
              name \<noteq> xz_lib_name \<and> (name = zstd_lib_name \<longrightarrow> z = 0)"
    unfolding f by (simp add: xz_lib_name_def zstd_lib_name_def)
  have d2: "distinct_names tree_with_lib" by code_simp
  have l2: "libs_to_extract ''ex'' tree_with_lib = [''ex/assets/libs.xzs'']" by code_simp
  show ?thesis
    using LibraryManager_enter_skips_empty_zstd [OF d, of "''ex''" example_shell None] h d f d2 l2
    by simp
qed

text \<open>
  Claim C10. After an \<^verbatim>\<open>__enter__\<close> that found something to extract and returned: if
  \<^verbatim>\<open>lib\<close> existed under the extracted tree when \<^verbatim>\<open>__enter__\<close> began, \<^verbatim>\<open>temporary_libs_dir\<close> is
  the \<^verbatim>\<open>__extracted_libs__\<close> directory inside it, and \<^verbatim>\<open>__exit__\<close> removes that directory with
  all it holds and nothing else, so that every other path, inside \<^verbatim>\<open>lib\<close> or not, is as
  before; if \<^verbatim>\<open>lib\<close> did not exist, \<^verbatim>\<open>temporary_libs_dir\<close> is \<^verbatim>\<open>lib\<close>, and \<^verbatim>\<open>__exit__\<close> removes
  the whole of it and nothing else.
\<close>

theorem LibraryManager_exit_removes_what_enter_created:
  assumes "LibraryManager_enter shell apk_dir unset tree = (None, temporary_libs_dir, tree1, cmds)"
    and "libs_to_extract apk_dir tree \<noteq> []"
  shows "(os_path_exists apk_dir tree (join apk_dir ''lib'') \<longrightarrow>
            temporary_libs_dir = Some (join (join apk_dir ''lib'') ''__extracted_libs__'') \<and>
            (\<exists>es. fs_lookup tree1 [''lib'', ''__extracted_libs__''] = Some (Dir es)) \<and>
            (\<forall>tree' es. fs_lookup tree' [''lib'', ''__extracted_libs__''] = Some (Dir es) \<longrightarrow>
               (\<exists>tree2. LibraryManager_exit apk_dir temporary_libs_dir tree' = (None, tree2) \<and>
                  (\<forall>ds. map_option kind_of (fs_lookup tree2 ds) =
                     (if prefix [''lib'', ''__extracted_libs__''] ds then None
                      else map_option kind_of (fs_lookup tree' ds)))))) \<and>
         (\<not> os_path_exists apk_dir tree (join apk_dir ''lib'') \<longrightarrow>
            temporary_libs_dir = Some (join apk_dir ''lib'') \<and>
            (\<exists>es. fs_lookup tree1 [''lib''] = Some (Dir es)) \<and>
            (\<forall>tree' es. fs_lookup tree' [''lib''] = Some (Dir es) \<longrightarrow>
               (\<exists>tree2. LibraryManager_exit apk_dir temporary_libs_dir tree' = (None, tree2) \<and>
                  (\<forall>ds. map_option kind_of (fs_lookup tree2 ds) =
                     (if prefix [''lib''] ds then None
                      else map_option kind_of (fs_lookup tree' ds))))))"
proof -
  note created = LibraryManager_enter_created [OF assms]
  show ?thesis
  proof (intro conjI impI allI)
    assume e: "os_path_exists apk_dir tree (join apk_dir ''lib'')"
    from created(2) [OF e]
    show "temporary_libs_dir = Some (join (join apk_dir ''lib'') ''__extracted_libs__'')"
      and "\<exists>es. fs_lookup tree1 [''lib'', ''__extracted_libs__''] = Some (Dir es)"
      by blast+
  next
    fix tree' es
    assume e: "os_path_exists apk_dir tree (join apk_dir ''lib'')"
      and l: "fs_lookup tree' [''lib'', ''__extracted_libs__''] = Some (Dir es)"
    from created(2) [OF e]
    have t: "temporary_libs_dir = Some (join (join apk_dir ''lib'') ''__extracted_libs__'')"
      by blast
    show "\<exists>tree2. LibraryManager_exit apk_dir temporary_libs_dir tree' = (None, tree2) \<and>
                  (\<forall>ds. map_option kind_of (fs_lookup tree2 ds) =
                     (if prefix [''lib'', ''__extracted_libs__''] ds then None
                      else map_option kind_of (fs_lookup tree' ds)))"
      unfolding t
      by (rule LibraryManager_exit_removes [OF components_scratch [OF created(1)] _ l]) simp
  next
    assume e: "\<not> os_path_exists apk_dir tree (join apk_dir ''lib'')"
    from created(3) [OF e]
    show "temporary_libs_dir = Some (join apk_dir ''lib'')"
      and "\<exists>es. fs_lookup tree1 [''lib''] = Some (Dir es)"
      by blast+
  next
    fix tree' es
    assume e: "\<not> os_path_exists apk_dir tree (join apk_dir ''lib'')"
      and l: "fs_lookup tree' [''lib''] = Some (Dir es)"
    from created(3) [OF e] have t: "temporary_libs_dir = Some (join apk_dir ''lib'')" by blast
    show "\<exists>tree2. LibraryManager_exit apk_dir temporary_libs_dir tree' = (None, tree2) \<and>
                  (\<forall>ds. map_option kind_of (fs_lookup tree2 ds) =
                     (if prefix [''lib''] ds then None
                      else map_option kind_of (fs_lookup tree' ds)))"
      unfolding t
      by (rule LibraryManager_exit_removes [OF components_lib [OF created(1)] _ l]) simp
  qed
qed

theorem LibraryManager_exit_removes_what_enter_created_witness:
  "os_path_exists ''ex'' tree_with_lib (join ''ex'' ''lib'') \<and>
   LibraryManager_enter example_shell ''ex'' None tree_with_lib =
     (None, Some ''ex/lib/__extracted_libs__'',
      Dir [(''assets'', Dir [(''libs.xzs'', File 7), (''libs.zstd'', File 0)]),
           (''lib'', Dir [(''x86'', Dir [(''libfoo.so'', File 5)]),
                          (''__extracted_libs__'', Dir [(''lib_0.so'', File 100)])])],
      [''xz -d --stdout ex/assets/libs.xzs > ex/lib/__extracted_libs__/lib_0.so'']) \<and>
   LibraryManager_exit ''ex'' (Some ''ex/lib/__extracted_libs__'')
     (Dir [(''assets'', Dir [(''libs.xzs'', File 7), (''libs.zstd'', File 0)]),
           (''lib'', Dir [(''x86'', Dir [(''libfoo.so'', File 5)]),
                          (''__extracted_libs__'', Dir [(''lib_0.so'', File 100)])])])
     = (None, tree_with_lib) \<and>
   \<not> os_path_exists ''ex'' tree_without_lib (join ''ex'' ''lib'') \<and>
   LibraryManager_enter example_shell ''ex'' None tree_without_lib =
     (None, Some ''ex/lib'',
      Dir [(''assets'', Dir [(''libs.xzs'', File 7), (''libs.zstd'', File 0)]),
           (''lib'', Dir [(''__extracted_libs__'', Dir [(''lib_0.so'', File 100)])])],
      [''xz -d --stdout ex/assets/libs.xzs > ex/lib/__extracted_libs__/lib_0.so'']) \<and>
   LibraryManager_exit ''ex'' (Some ''ex/lib'')
     (Dir [(''assets'', Dir [(''libs.xzs'', File 7), (''libs.zstd'', File 0)]),
           (''lib'', Dir [(''__extracted_libs__'', Dir [(''lib_0.so'', File 100)])])])
     = (None, tree_without_lib)"
proof -
  let ?t1 = "Dir [(''assets'', Dir [(''libs.xzs'', File 7), (''libs.zstd'', File 0)]),
           (''lib'', Dir [(''x86'', Dir [(''libfoo.so'', File 5)]),
                          (''__extracted_libs__'', Dir [(''lib_0.so'', File 100)])])]"
  let ?t2 = "Dir [(''assets'', Dir [(''libs.xzs'', File 7), (''libs.zstd'', File 0)]),
           (''lib'', Dir [(''__extracted_libs__'', Dir [(''lib_0.so'', File 100)])])]"
  let ?cmd = "''xz -d --stdout ex/assets/libs.xzs > ex/lib/__extracted_libs__/lib_0.so''"
  have p1: "os_path_exists ''ex'' tree_with_lib (join ''ex'' ''lib'')" by code_simp
  have e1: "LibraryManager_enter example_shell ''ex'' None tree_with_lib =
     (None, Some ''ex/lib/__extracted_libs__'', ?t1, [?cmd])" by code_simp
  have l1: "libs_to_extract ''ex'' tree_with_lib \<noteq> []" by code_simp
  have x1: "LibraryManager_exit ''ex'' (Some ''ex/lib/__extracted_libs__'') ?t1 = (None, tree_with_lib)"
    by code_simp
  have p2: "\<not> os_path_exists ''ex'' tree_without_lib (join ''ex'' ''lib'')" by code_simp
  have e2: "LibraryManager_enter example_shell ''ex'' None tree_without_lib =
     (None, Some ''ex/lib'', ?t2, [?cmd])" by code_simp
  have l2: "libs_to_extract ''ex'' tree_without_lib \<noteq> []" by code_simp
  have x2: "LibraryManager_exit ''ex'' (Some ''ex/lib'') ?t2 = (None, tree_without_lib)"
    by code_simp
  show ?thesis
    using LibraryManager_exit_removes_what_enter_created [OF e1 l1]
      LibraryManager_exit_removes_what_enter_created [OF e2 l2] p1 e1 x1 p2 e2 x2
    by simp
qed

end
